theory Spec2Isabelle
  imports Complex_Main "HOL-Library.AList"
begin

section \<open>Python strings\<close>

text \<open>
  A Python \<open>str\<close> is a sequence of code points. The model is \<open>string\<close>, a list of
  \<open>char\<close>, each \<open>char\<close> read as one code point of the range U+0000 .. U+00FF
  (Latin-1): every name the development below resolves lies in that range
  (\<open>CHR 0xFB\<close> is u with circumflex, \<open>CHR 0xE6\<close> the ae ligature, \<open>CHR 0xE9\<close> e with acute).
  The string methods are modelled on that range as CPython defines them.
\<close>

definition cp :: "char \<Rightarrow> nat" where
  "cp c = of_char c"

text \<open>\<open>str.lower\<close>: A-Z and the upper-case letters U+00C0 .. U+00DE (U+00D7, the
  multiplication sign, apart) move up by 32; every other code point of the range stays.\<close>

definition py_lower_char :: "char \<Rightarrow> char" where
  "py_lower_char c =
     (if (65 \<le> cp c \<and> cp c \<le> 90) \<or> (192 \<le> cp c \<and> cp c \<le> 222 \<and> cp c \<noteq> 215)
      then char_of (cp c + 32) else c)"

definition py_lower :: "string \<Rightarrow> string" where
  "py_lower s = map py_lower_char s"

text \<open>The white space of \<open>str.split()\<close>, \<open>str.strip()\<close> and \<open>str.isspace\<close>:
  U+0009 .. U+000D, U+001C .. U+0020, U+0085 and U+00A0.\<close>

definition py_isspace :: "char \<Rightarrow> bool" where
  "py_isspace c =
     ((9 \<le> cp c \<and> cp c \<le> 13) \<or> (28 \<le> cp c \<and> cp c \<le> 32) \<or> cp c = 133 \<or> cp c = 160)"

text \<open>\<open>s.split()\<close> with no separator: the maximal runs of characters that are not white
  space, in order; \<open>w\<close> is the run being read.\<close>

fun split_ws :: "string \<Rightarrow> string \<Rightarrow> string list" where
  "split_ws w [] = (if w = [] then [] else [w])"
| "split_ws w (c # cs) =
     (if py_isspace c then (if w = [] then split_ws [] cs else w # split_ws [] cs)
      else split_ws (w @ [c]) cs)"

definition py_split :: "string \<Rightarrow> string list" where
  "py_split s = split_ws [] s"

text \<open>\<open>sep.join(ws)\<close>.\<close>

fun py_join :: "string \<Rightarrow> string list \<Rightarrow> string" where
  "py_join sep [] = []"
| "py_join sep [w] = w"
| "py_join sep (w # v # ws) = w @ sep @ py_join sep (v # ws)"

text \<open>\<open>strip_prefix p s\<close> is the rest of \<open>s\<close> after the prefix \<open>p\<close>, when \<open>s\<close> starts
  with \<open>p\<close>.\<close>

fun strip_prefix :: "string \<Rightarrow> string \<Rightarrow> string option" where
  "strip_prefix [] s = Some s"
| "strip_prefix (p # ps) [] = None"
| "strip_prefix (p # ps) (c # cs) = (if p = c then strip_prefix ps cs else None)"

lemma strip_prefix_length:
  "strip_prefix p s = Some r \<Longrightarrow> length r + length p = length s"
  by (induction p s rule: strip_prefix.induct) (auto split: if_splits)

text \<open>\<open>s.replace(old, new)\<close> for a non-empty \<open>old\<close>: the occurrences of \<open>old\<close> are
  found from the left and do not overlap.\<close>

function replace_from :: "string \<Rightarrow> string \<Rightarrow> string \<Rightarrow> string" where
  "replace_from old new [] = []"
| "replace_from old new (c # cs) =
     (case (if old = [] then None else strip_prefix old (c # cs)) of
        Some r \<Rightarrow> new @ replace_from old new r
      | None \<Rightarrow> c # replace_from old new cs)"
  by pat_completeness auto
termination
proof (relation "measure (\<lambda>(old, new, s). length s)")
  show "wf (measure (\<lambda>(old, new, s). length s))" by simp
next
  fix old new :: string and c cs r
  assume "(if old = [] then None else strip_prefix old (c # cs)) = Some r"
  then have "old \<noteq> []" and "strip_prefix old (c # cs) = Some r"
    by (auto split: if_splits)
  then have "length r < length (c # cs)"
    using strip_prefix_length [of old "c # cs" r] by (cases old) auto
  then show "((old, new, r), (old, new, c # cs)) \<in> measure (\<lambda>(old, new, s). length s)"
    by simp
next
  fix old new :: string and c cs
  show "((old, new, cs), (old, new, c # cs)) \<in> measure (\<lambda>(old, new, s). length s)"
    by simp
qed

text \<open>\<open>s.replace(old, new)\<close>. With the empty string as \<open>old\<close>, Python puts \<open>new\<close>
  before every character of \<open>s\<close> and after the last one:
  \<^verbatim>\<open>'abc'.replace('', '-') == '-a-b-c-'\<close> and \<^verbatim>\<open>''.replace('', '-') == '-'\<close>.\<close>

definition py_replace :: "string \<Rightarrow> string \<Rightarrow> string \<Rightarrow> string" where
  "py_replace old new s =
     (if old = [] then new @ concat (map (\<lambda>c. c # new) s) else replace_from old new s)"

text \<open>\<open>s.strip()\<close>: white space removed at both ends.\<close>

definition py_strip :: "string \<Rightarrow> string" where
  "py_strip s = rev (dropWhile py_isspace (rev (dropWhile py_isspace s)))"

text \<open>\<open>s.split(sep)\<close> for a non-empty separator: the pieces between the occurrences of
  \<open>sep\<close>, found from the left; \<open>w\<close> is the piece being read. (Python raises ValueError on
  an empty separator; the source only splits on \<^verbatim>\<open>'//'\<close> and \<^verbatim>\<open>'/'\<close>.)\<close>

function split_from :: "string \<Rightarrow> string \<Rightarrow> string \<Rightarrow> string list" where
  "split_from sep w [] = [w]"
| "split_from sep w (c # cs) =
     (case (if sep = [] then None else strip_prefix sep (c # cs)) of
        Some r \<Rightarrow> w # split_from sep [] r
      | None \<Rightarrow> split_from sep (w @ [c]) cs)"
  by pat_completeness auto
termination
proof (relation "measure (\<lambda>(sep, w, s). length s)")
  show "wf (measure (\<lambda>(sep, w, s). length s))" by simp
next
  fix sep w :: string and c cs r
  assume "(if sep = [] then None else strip_prefix sep (c # cs)) = Some r"
  then have "sep \<noteq> []" and "strip_prefix sep (c # cs) = Some r"
    by (auto split: if_splits)
  then have "length r < length (c # cs)"
    using strip_prefix_length [of sep "c # cs" r] by (cases sep) auto
  then show "((sep, [], r), (sep, w, c # cs)) \<in> measure (\<lambda>(sep, w, s). length s)"
    by simp
next
  fix sep w :: string and c cs
  show "((sep, w @ [c], cs), (sep, w, c # cs)) \<in> measure (\<lambda>(sep, w, s). length s)"
    by simp
qed

definition py_split_sep :: "string \<Rightarrow> string \<Rightarrow> string list" where
  "py_split_sep sep s = split_from sep [] s"

text \<open>\<open>sub in s\<close> on strings.\<close>

fun py_contains :: "string \<Rightarrow> string \<Rightarrow> bool" where
  "py_contains sub [] = (sub = [])"
| "py_contains sub (c # cs) = (strip_prefix sub (c # cs) \<noteq> None \<or> py_contains sub cs)"

section \<open>Card-name normalization (src/normalization/scryfall.py)\<close>

text \<open>
  \<open>ScryfallNormalizer._normalize_name\<close>, statement by statement:
  \<^verbatim>\<open>
    if not name: return ""
    normalized = name.lower()
    normalized = ' '.join(normalized.split())
    normalized = normalized.replace(<U+00E6>, 'ae')
    normalized = normalized.replace(<U+00E9>, 'e')
    normalized = normalized.replace('', "'")
    normalized = re.sub(r'["""]', '"', normalized)
    return normalized
  \<close>
  The first argument of the third \<open>replace\<close> is the empty string in the source file (the
  two bytes 0x27 0x27), and the character class of the regular expression holds the one
  character U+0022, three times.
\<close>

definition re_sub_quotes :: "string \<Rightarrow> string" where
  "re_sub_quotes s = map (\<lambda>c. if c = CHR 0x22 then CHR 0x22 else c) s"

definition normalize_name :: "string \<Rightarrow> string" where
  "normalize_name name =
     (if name = [] then []
      else
        let normalized = py_lower name;
            normalized = py_join '' '' (py_split normalized);
            normalized = py_replace [CHR 0xE6] ''ae'' normalized;
            normalized = py_replace [CHR 0xE9] ''e'' normalized;
            normalized = py_replace [] [CHR 0x27] normalized;
            normalized = re_sub_quotes normalized
        in normalized)"

section \<open>The reference dataset and the name index\<close>

text \<open>
  One entry of the bulk reference dataset, with the keys \<open>build_name_resolver\<close> reads:
  \<open>oracle_id\<close>, \<open>name\<close>, the optional list \<open>card_faces\<close> (of each face only
  \<open>face.get('name')\<close> is read, \<open>None\<close> when the face has no name) and the optional
  \<open>printed_name\<close>. These are the well-formed entries, with both mandatory keys; a
  dataset with another entry is \<open>Partly_built\<close> below.
\<close>

record ref_card =
  rc_oracle_id :: string
  rc_name :: string
  rc_card_faces :: "string option list option"
  rc_printed_name :: "string option"

text \<open>What \<open>build_name_resolver\<close> finds at \<open>local_bulk_path\<close>: no file and a failed
  download (the method returns False before it touches the index); a file that cannot be
  opened or parsed (False after \<open>oracle_cache.clear()\<close>); a file with an entry on which
  the loop raises (a missing key, a value of another type): the method returns False and
  the index holds what the loop had stored until then, \<open>Partly_built\<close> giving that
  index; or the list of entries, all well formed.\<close>

datatype bulk_data = No_file | Bad_file | Partly_built "(string \<times> string) list" | Cards "ref_card list"

text \<open>\<open>oracle_cache\<close>, the name index: a Python dict from normalized name to
  \<open>oracle_id\<close>, as an association list with one pair per key
  (\<open>AList.update\<close> is \<open>d[k] = v\<close>, \<open>map_of\<close> is the lookup, \<open>[]\<close> is the empty dict).\<close>

type_synonym cache = "(string \<times> string) list"

text \<open>The loop over \<open>card['card_faces']\<close>.\<close>

fun add_faces :: "string \<Rightarrow> string option list \<Rightarrow> cache \<Rightarrow> cache" where
  "add_faces oid [] c = c"
| "add_faces oid (face_name # faces) c =
     add_faces oid faces
       (case face_name of
          None \<Rightarrow> c
        | Some n \<Rightarrow> if n \<noteq> [] then AList.update (normalize_name n) oid c else c)"

text \<open>The loop over the stripped parts of a split name.\<close>

fun add_parts :: "string \<Rightarrow> string list \<Rightarrow> cache \<Rightarrow> cache" where
  "add_parts oid [] c = c"
| "add_parts oid (part # parts) c =
     add_parts oid parts (AList.update (normalize_name part) oid c)"

text \<open>The body of \<open>for card in cards\<close>.\<close>

definition add_card :: "ref_card \<Rightarrow> cache \<Rightarrow> cache" where
  "add_card entry c =
     (let oracle_id = rc_oracle_id entry;
          name = rc_name entry;
          c = AList.update (normalize_name name) oracle_id c;
          c = (case rc_card_faces entry of None \<Rightarrow> c | Some faces \<Rightarrow> add_faces oracle_id faces c);
          c = (if py_contains ''//'' name
               then add_parts oracle_id (map py_strip (py_split_sep ''//'' name)) c else c);
          c = (case rc_printed_name entry of
                 None \<Rightarrow> c
               | Some printed_name \<Rightarrow>
                   if printed_name \<noteq> [] then AList.update (normalize_name printed_name) oracle_id c
                   else c)
      in c)"

fun add_cards :: "ref_card list \<Rightarrow> cache \<Rightarrow> cache" where
  "add_cards [] c = c"
| "add_cards (entry # cards) c = add_cards cards (add_card entry c)"

text \<open>\<open>build_name_resolver\<close>: the Boolean it returns and the index it leaves.\<close>

fun build_name_resolver :: "bulk_data \<Rightarrow> cache \<Rightarrow> bool \<times> cache" where
  "build_name_resolver No_file c = (False, c)"
| "build_name_resolver Bad_file c = (False, [])"
| "build_name_resolver (Partly_built stored) c = (False, stored)"
| "build_name_resolver (Cards cards) c = (True, add_cards cards [])"

section \<open>Resolution\<close>

text \<open>The four variations, in the order of the source. The third replaces U+0027 by
  U+0027 (both string literals of the source hold that one character).\<close>

definition variations :: "string \<Rightarrow> string list" where
  "variations normalized =
     [py_replace [CHR 0x22] [] normalized,
      py_replace [CHR 0x27] [] normalized,
      py_replace [CHR 0x27] [CHR 0x27] normalized,
      py_replace '','' [] normalized]"

text \<open>\<open>for variation in variations: if variation in self.oracle_cache: ...\<close>: the id of
  the first variation that is a key of the index.\<close>

fun first_hit :: "cache \<Rightarrow> string list \<Rightarrow> string option" where
  "first_hit c [] = None"
| "first_hit c (variation # vs) =
     (case map_of c variation of Some oid \<Rightarrow> Some oid | None \<Rightarrow> first_hit c vs)"

definition basic_lands :: "(string \<times> string) list" where
  "basic_lands =
     [(''plains'', ''bc71ebf6-2056-41f7-be35-b2e5c34afa99''),
      (''island'', ''8cff7b58-bd58-4911-a6a3-bdd1dbf71a72''),
      (''swamp'', ''a3fb7228-e76b-4e96-a40e-20b5fed75685''),
      (''mountain'', ''8cf3dce3-01e4-4fe2-ac44-b13b6fe8799e''),
      (''forest'', ''b34bb2dc-c1af-4d77-b0b3-a0fb342a5fc6'')]"

text \<open>\<open>resolve_card_name\<close>, from the index as it stands (second argument of the
  result: the index afterwards). \<open>bulk\<close> is what a build would find.\<close>

definition resolve_lookup :: "string \<Rightarrow> cache \<Rightarrow> string option \<times> cache" where
  "resolve_lookup name c =
     (let normalized = normalize_name name in
      case map_of c normalized of
        Some oid \<Rightarrow> (Some oid, c)
      | None \<Rightarrow>
          (case first_hit c (variations normalized) of
             Some oid \<Rightarrow> (Some oid, AList.update normalized oid c)
           | None \<Rightarrow>
               (case map_of basic_lands normalized of
                  Some oracle_id \<Rightarrow> (Some oracle_id, AList.update normalized oracle_id c)
                | None \<Rightarrow> (None, c))))"

definition resolve_card_name :: "bulk_data \<Rightarrow> string \<Rightarrow> cache \<Rightarrow> string option \<times> cache" where
  "resolve_card_name bulk name c =
     (if c = [] then
        (case build_name_resolver bulk c of
           (False, c') \<Rightarrow> (None, c')
         | (True, c') \<Rightarrow> resolve_lookup name c')
      else resolve_lookup name c)"

section \<open>The rate-limited request engine (src/adapters/base_adapter.py)\<close>

text \<open>
  What \<open>int(response.headers.get('Retry-After', 60))\<close> meets in a response with status
  429: no such header (the value is 60), a header that \<open>int\<close> reads as an integer, or
  any other header (an HTTP date, a decimal fraction), on which \<open>int\<close> raises ValueError.
\<close>

datatype retry_after = No_header | Int_header int | Other_header

text \<open>
  What one \<open>session.get\<close> of \<open>_make_request\<close> meets: a response with status 429, a
  \<open>RequestException\<close> (raised by \<open>get\<close> or by \<open>raise_for_status\<close>), or a response that
  \<open>raise_for_status\<close> accepts.
\<close>

datatype 'r http_outcome = Rate_limited retry_after | Failed string | Succeeded 'r

text \<open>What the engine does, in order: the pacing step \<open>_rate_limit()\<close> (one event, taken
  to return), a \<open>session.get\<close>,
  the sleep of a 429 (seconds), the backoff sleep after a failure at the given attempt
  (\<open>backoff_base ** attempt\<close> seconds and a random part).\<close>

datatype effect = Rate_limit | Get | Sleep_retry_after int | Sleep_backoff nat

text \<open>What the call ends with besides a response: a \<open>RequestException\<close> that it re-raises,
  or an exception that no handler of the method catches: the ValueError of \<open>int\<close> on a
  header that is no integer or of \<open>time.sleep\<close> on a negative duration, the
  OverflowError (on some platforms OSError) of \<open>time.sleep\<close> on a duration beyond what
  the platform accepts.\<close>

datatype request_error = RequestException string | ValueError | OverflowError

definition retry_after_of :: "retry_after \<Rightarrow> int option" where
  "retry_after_of header =
     (case header of No_header \<Rightarrow> Some 60 | Int_header v \<Rightarrow> Some v | Other_header \<Rightarrow> None)"

text \<open>\<open>time.sleep(seconds)\<close> on a whole number of seconds: the exception it raises, if
  any. \<open>max_sleep\<close> is the longest sleep the platform accepts.\<close>

definition sleep_error :: "int \<Rightarrow> int \<Rightarrow> request_error option" where
  "sleep_error max_sleep seconds =
     (if seconds < 0 then Some ValueError
      else if max_sleep < seconds then Some OverflowError
      else None)"

text \<open>
  \<open>for attempt in range(max_retries + 1)\<close>, with \<open>n\<close> iterations left and \<open>attempt\<close> the
  loop variable. Every iteration issues one \<open>get\<close>, so \<open>server attempt\<close> is what the
  \<open>get\<close> of that iteration meets. \<open>backoff_error attempt\<close> is the exception, if any, of
  computing and sleeping the backoff \<open>(backoff_base ** attempt) + random.uniform(0, 1)\<close>
  in the handler; it leaves the method as the exceptions of the 429 branch do. The result
  is \<open>Inl\<close> for an exception that leaves the method, \<open>Inr (Some r)\<close> for
  \<open>return response\<close> and \<open>Inr None\<close> when the loop ends and the method falls off its
  end.
\<close>

fun attempts ::
  "(nat \<Rightarrow> 'r http_outcome) \<Rightarrow> (nat \<Rightarrow> request_error option) \<Rightarrow> int \<Rightarrow> int \<Rightarrow> nat \<Rightarrow> nat \<Rightarrow>
   effect list \<times> (request_error + 'r option)"
where
  "attempts server backoff_error max_sleep max_retries 0 attempt = ([], Inr None)"
| "attempts server backoff_error max_sleep max_retries (Suc n) attempt =
     (case server attempt of
        Rate_limited header \<Rightarrow>
          (case retry_after_of header of
             None \<Rightarrow> ([Get], Inl ValueError)
           | Some retry_after \<Rightarrow>
               (case sleep_error max_sleep retry_after of
                  Some err \<Rightarrow> ([Get], Inl err)
                | None \<Rightarrow>
                    (case attempts server backoff_error max_sleep max_retries n (Suc attempt) of
                       (effects, result) \<Rightarrow>
                         (Get # Sleep_retry_after retry_after # effects, result))))
      | Succeeded response \<Rightarrow> ([Get], Inr (Some response))
      | Failed e \<Rightarrow>
          if int attempt < max_retries then
            (case backoff_error attempt of
               Some err \<Rightarrow> ([Get], Inl err)
             | None \<Rightarrow>
                 (case attempts server backoff_error max_sleep max_retries n (Suc attempt) of
                    (effects, result) \<Rightarrow> (Get # Sleep_backoff attempt # effects, result)))
          else ([Get], Inl (RequestException e)))"

definition make_request ::
  "(nat \<Rightarrow> 'r http_outcome) \<Rightarrow> (nat \<Rightarrow> request_error option) \<Rightarrow> int \<Rightarrow> int \<Rightarrow>
   effect list \<times> (request_error + 'r option)"
where
  "make_request server backoff_error max_sleep max_retries =
     (case attempts server backoff_error max_sleep max_retries (nat (max_retries + 1)) 0 of
        (effects, result) \<Rightarrow> (Rate_limit # effects, result))"

text \<open>Two servers to run the engine against: one that answers 429 (no \<open>Retry-After\<close>),
  then fails once, then serves the page; one that answers 429 once, then serves. A
  backoff that always sleeps, and a platform that sleeps up to a day.\<close>

definition throttling_then_failing :: "nat \<Rightarrow> string http_outcome" where
  "throttling_then_failing i =
     (if i = 0 then Rate_limited No_header else if i = 1 then Failed ''timeout''
      else Succeeded ''page'')"

definition throttling_once :: "nat \<Rightarrow> string http_outcome" where
  "throttling_once i = (if i = 0 then Rate_limited (Int_header 5) else Succeeded ''page'')"

definition backoff_sleeps :: "nat \<Rightarrow> request_error option" where
  "backoff_sleeps attempt = None"

definition one_day :: int where
  "one_day = 86400"

section \<open>Deck discovery (src/adapters/archidekt.py)\<close>

text \<open>\<open>str.isdigit\<close> on the range of the model: the digits 0-9 and the superscript
  digits U+00B2, U+00B3 and U+00B9; false on the empty string.\<close>

definition py_isdigit_char :: "char \<Rightarrow> bool" where
  "py_isdigit_char c = ((48 \<le> cp c \<and> cp c \<le> 57) \<or> cp c = 178 \<or> cp c = 179 \<or> cp c = 185)"

definition py_isdigit :: "string \<Rightarrow> bool" where
  "py_isdigit s = (s \<noteq> [] \<and> list_all py_isdigit_char s)"

text \<open>\<open>list(set(xs))\<close>: the distinct elements of \<open>xs\<close>, in an order that Python does not
  specify. The order of \<open>remdups\<close> stands for it; no property below depends on it.\<close>

definition py_list_set :: "'a list \<Rightarrow> 'a list" where
  "py_list_set xs = remdups xs"

text \<open>The test of one \<open>href\<close> in \<open>_extract_deck_ids_from_html\<close>:
  \<^verbatim>\<open>
    if href.startswith('/decks/') and '/' in href[7:]:
        parts = href.split('/')
        if len(parts) >= 3 and parts[2].isdigit():
            deck_ids.append(parts[2])
  \<close>\<close>

definition deck_id_of_href :: "string \<Rightarrow> string option" where
  "deck_id_of_href href =
     (if strip_prefix ''/decks/'' href \<noteq> None \<and> py_contains ''/'' (drop 7 href) then
        (let parts = py_split_sep ''/'' href in
         if length parts \<ge> 3 \<and> py_isdigit (parts ! 2) then Some (parts ! 2) else None)
      else None)"

text \<open>A search page as the extraction sees it: the \<open>href\<close> values of its \<open>a\<close> elements, in
  document order, when BeautifulSoup parses it; the matches of the fallback's regular
  expression (\<open>re.findall\<close>, the digit groups) when the parser raises.\<close>

datatype html = Links "string list" | Regex_matches "string list"

fun extract_deck_ids_from_html :: "html \<Rightarrow> string list" where
  "extract_deck_ids_from_html (Links hrefs) = py_list_set (List.map_filter deck_id_of_href hrefs)"
| "extract_deck_ids_from_html (Regex_matches matches) = py_list_set matches"

text \<open>\<open>discover_deck_ids_by_commander\<close> for one commander and ordering: \<open>server page\<close> is
  the answer to the search request for that page, \<open>None\<close> when the request or the
  handling of its answer raises (the method then returns the empty list).\<close>

definition discover_deck_ids_by_commander :: "(nat \<Rightarrow> html option) \<Rightarrow> nat \<Rightarrow> string list" where
  "discover_deck_ids_by_commander server page =
     (case server page of None \<Rightarrow> [] | Some html_content \<Rightarrow> extract_deck_ids_from_html html_content)"

text \<open>What the paginated search does besides computing: the search request of a page, and
  \<open>time.sleep(random.uniform(lo, hi))\<close>, written \<open>Delay lo hi\<close>.\<close>

datatype event = Fetch nat | Delay rat rat

text \<open>
  Whether \<open>time.sleep(random.uniform(politeness_seconds / 2, politeness_seconds))\<close>
  raises. With a negative \<open>politeness_seconds\<close> every value drawn is negative and
  \<open>time.sleep\<close> raises ValueError. \<open>max_sleep\<close> is the longest sleep the platform accepts
  (\<open>time.sleep\<close> raises OverflowError, on some platforms OSError, beyond it): no value
  drawn exceeds it when \<open>politeness_seconds \<le> max_sleep\<close>, every value does when
  \<open>politeness_seconds / 2\<close> exceeds it, and in between \<open>high_draw\<close> says whether the value
  drawn does.
\<close>

definition sleep_raises :: "int \<Rightarrow> int \<Rightarrow> bool \<Rightarrow> bool" where
  "sleep_raises max_sleep politeness_seconds high_draw =
     (politeness_seconds < 0 \<or> 2 * max_sleep < politeness_seconds
      \<or> (max_sleep < politeness_seconds \<and> high_draw))"

text \<open>
  The \<open>while page <= max_pages\<close> loop of \<open>discover_top_viewed_deck_ids_by_commander\<close>:
  the identifiers collected and the events, from the state \<open>page\<close>, \<open>all_deck_ids\<close>.
  \<open>high_draw page\<close> is the draw of the sleep that follows the request of \<open>page\<close>. When
  the sleep raises, the loop's \<open>except Exception: break\<close> ends the search.
\<close>

function top_loop ::
  "(nat \<Rightarrow> html option) \<Rightarrow> int \<Rightarrow> (nat \<Rightarrow> bool) \<Rightarrow> int \<Rightarrow> int \<Rightarrow> nat \<Rightarrow> string list \<Rightarrow>
   string list \<times> event list"
where
  "top_loop server max_sleep high_draw max_pages politeness_seconds page all_deck_ids =
     (if int page \<le> max_pages then
        (let page_deck_ids = discover_deck_ids_by_commander server page in
         if page_deck_ids = [] then (all_deck_ids, [Fetch page])
         else
           (let all_deck_ids = all_deck_ids @ page_deck_ids in
            if int page \<ge> max_pages then (all_deck_ids, [Fetch page])
            else if int page < max_pages then
              (if sleep_raises max_sleep politeness_seconds (high_draw page)
               then (all_deck_ids, [Fetch page])
               else
                 (case top_loop server max_sleep high_draw max_pages politeness_seconds
                         (Suc page) all_deck_ids of
                    (ids, events) \<Rightarrow>
                      (ids, Fetch page #
                            Delay (of_int politeness_seconds / 2) (of_int politeness_seconds) #
                            events)))
            else
              (case top_loop server max_sleep high_draw max_pages politeness_seconds
                      (Suc page) all_deck_ids of
                 (ids, events) \<Rightarrow> (ids, Fetch page # events))))
      else (all_deck_ids, []))"
  by pat_completeness auto
termination
  by (relation "measure (\<lambda>(server, max_sleep, high_draw, max_pages, politeness_seconds, page,
        all_deck_ids). nat (max_pages + 1 - int page))") auto

declare top_loop.simps [simp del]

definition discover_top_viewed_deck_ids_by_commander ::
  "(nat \<Rightarrow> html option) \<Rightarrow> int \<Rightarrow> (nat \<Rightarrow> bool) \<Rightarrow> int \<Rightarrow> int \<Rightarrow> string list \<times> event list"
where
  "discover_top_viewed_deck_ids_by_commander server max_sleep high_draw max_pages
     politeness_seconds =
     (case top_loop server max_sleep high_draw max_pages politeness_seconds 1 [] of
        (all_deck_ids, events) \<Rightarrow> (py_list_set all_deck_ids, events))"

text \<open>The pages a run requested, in order.\<close>

fun fetched :: "event list \<Rightarrow> nat list" where
  "fetched [] = []"
| "fetched (Fetch n # events) = n # fetched events"
| "fetched (Delay lo hi # events) = fetched events"

text \<open>A source of search pages that shows the same one deck on every page.\<close>

definition same_deck_on_every_page :: "nat \<Rightarrow> html option" where
  "same_deck_on_every_page page = Some (Links [''/decks/42/the-deck''])"

text \<open>A source with two pages of results, which share a deck; every later page is empty.\<close>

definition two_pages_of_results :: "nat \<Rightarrow> html option" where
  "two_pages_of_results page =
     (if page = 1 then Some (Links [''/decks/11/first'', ''/decks/12/second'', ''/decks/11/first''])
      else if page = 2 then Some (Links [''/decks/12/second'', ''/decks/13/third''])
      else Some (Links []))"

text \<open>Draws that are never above the platform's limit.\<close>

definition low_draws :: "nat \<Rightarrow> bool" where
  "low_draws page = False"

text \<open>The two result pages in the other order.\<close>

definition swap_first_two :: "nat \<Rightarrow> nat" where
  "swap_first_two n = (if n = 1 then 2 else if n = 2 then 1 else n)"

section \<open>The store (src/db/database.py)\<close>

text \<open>
  The tables that \<open>DatabaseManager\<close> reads and writes, as lists of rows in insertion
  order. The time-valued columns (\<open>created_at\<close>, \<open>updated_at\<close>, \<open>last_seen_at\<close>,
  \<open>fetched_at\<close>, \<open>first_seen\<close>, \<open>last_seen\<close>, \<open>duration_seconds\<close>) are left out: no
  property below reads the clock. The operations are those of a database that executes
  every statement: the values stored are ones SQLite accepts (a quantity is an integer
  of at most 64 bits; \<open>sqlite3\<close> raises OverflowError on a larger one), and the
  connection does not fail.
\<close>

record deck_row =
  d_id :: nat
  d_source_id :: nat
  d_source_deck_id :: string
  d_format :: string
  d_title :: "string option"
  d_author :: "string option"
  d_url :: "string option"
  d_extra :: string

record card_row =
  cr_deck_id :: nat
  cr_name :: string
  cr_qty :: int
  cr_oracle_id :: "string option"
  cr_zone :: string

record commander_row =
  mr_deck_id :: nat
  mr_oracle_id :: "string option"
  mr_name :: string

record job_run =
  jr_source_name :: string
  jr_operation :: string
  jr_status :: string
  jr_decks_processed :: nat
  jr_cards_processed :: nat
  jr_errors_count :: nat
  jr_http_429_count :: nat
  jr_message :: "string option"

record db =
  sources :: "(nat \<times> string) list"
  decks :: "deck_row list"
  deck_cards :: "card_row list"
  deck_commanders :: "commander_row list"
  unmapped_cards :: "(string \<times> nat) list"
  ingestion_logs :: "job_run list"

text \<open>The normalized deck an adapter hands over (a Python dict): the keys the store reads,
  an optional field being \<open>None\<close> where the dict has no such key. \<open>dd_extra\<close> is
  \<open>json.dumps(deck_data.get('extra', {}))\<close>.\<close>

record card_entry =
  ce_name :: string
  ce_qty :: "int option"
  ce_oracle_id :: "string option"
  ce_zone :: "string option"

record commander_entry =
  cm_name :: string
  cm_oracle_id :: "string option"

record deck_data =
  dd_source_deck_id :: string
  dd_title :: "string option"
  dd_author :: "string option"
  dd_url :: "string option"
  dd_format :: "string option"
  dd_extra :: string
  dd_cards :: "card_entry list"
  dd_commanders :: "commander_entry list"

text \<open>
  Modelled from the spec: \<open>schema.sql\<close>, which declares the tables, is not among the
  sources. The spec gives \<open>sources(id, name)\<close> and \<open>decks(id, ...)\<close>, the latter unique on
  \<open>(source_id, source_deck_id)\<close>. \<open>fresh_id\<close> is \<open>cursor.lastrowid\<close> after an insert into a
  table with an integer primary key: one more than the largest id in use.
\<close>

definition fresh_id :: "nat list \<Rightarrow> nat" where
  "fresh_id used = Suc (Max (set (0 # used)))"

definition deck_key :: "deck_row \<Rightarrow> nat \<times> string" where
  "deck_key row = (d_source_id row, d_source_deck_id row)"

definition unique_deck_keys :: "db \<Rightarrow> bool" where
  "unique_deck_keys s = distinct (map deck_key (decks s))"

text \<open>\<open>get_source_id\<close>: the id of the first row of that name (\<open>fetchone\<close>), else a new
  row.\<close>

definition get_source_id :: "string \<Rightarrow> db \<Rightarrow> nat \<times> db" where
  "get_source_id source_name s =
     (case find (\<lambda>row. snd row = source_name) (sources s) of
        Some row \<Rightarrow> (fst row, s)
      | None \<Rightarrow>
          (let new_id = fresh_id (map fst (sources s))
           in (new_id, s\<lparr>sources := sources s @ [(new_id, source_name)]\<rparr>)))"

text \<open>\<open>upsert_deck\<close>: the deck id it returns and the store afterwards. The UPDATE
  touches the rows whose id is that of the row found; the INSERT takes \<open>format\<close> from the
  deck, \<open>Commander\<close> when it has none.\<close>

definition upsert_deck :: "string \<Rightarrow> string \<Rightarrow> deck_data \<Rightarrow> db \<Rightarrow> nat \<times> db" where
  "upsert_deck source_name source_deck_id deck_data s0 =
     (case get_source_id source_name s0 of
        (source_id, s) \<Rightarrow>
          (case find (\<lambda>row. d_source_id row = source_id \<and> d_source_deck_id row = source_deck_id)
                  (decks s) of
             Some existing \<Rightarrow>
               (d_id existing,
                s\<lparr>decks :=
                    map (\<lambda>row. if d_id row = d_id existing
                               then row\<lparr>d_title := dd_title deck_data,
                                        d_author := dd_author deck_data,
                                        d_url := dd_url deck_data,
                                        d_extra := dd_extra deck_data\<rparr>
                               else row)
                        (decks s)\<rparr>)
           | None \<Rightarrow>
               (let deck_id = fresh_id (map d_id (decks s))
                in (deck_id,
                    s\<lparr>decks := decks s @
                        [\<lparr>d_id = deck_id, d_source_id = source_id,
                          d_source_deck_id = source_deck_id,
                          d_format = (case dd_format deck_data of
                                        None \<Rightarrow> ''Commander'' | Some f \<Rightarrow> f),
                          d_title = dd_title deck_data, d_author = dd_author deck_data,
                          d_url = dd_url deck_data, d_extra = dd_extra deck_data\<rparr>]\<rparr>))))"

definition card_row_of :: "nat \<Rightarrow> card_entry \<Rightarrow> card_row" where
  "card_row_of deck_id entry =
     \<lparr>cr_deck_id = deck_id, cr_name = ce_name entry,
      cr_qty = (case ce_qty entry of None \<Rightarrow> 1 | Some q \<Rightarrow> q),
      cr_oracle_id = ce_oracle_id entry,
      cr_zone = (case ce_zone entry of None \<Rightarrow> ''main'' | Some z \<Rightarrow> z)\<rparr>"

definition insert_deck_cards :: "nat \<Rightarrow> card_entry list \<Rightarrow> bool \<Rightarrow> db \<Rightarrow> db" where
  "insert_deck_cards deck_id cards clear_existing s =
     (let kept = (if clear_existing then filter (\<lambda>row. cr_deck_id row \<noteq> deck_id) (deck_cards s)
                  else deck_cards s)
      in s\<lparr>deck_cards := kept @ map (card_row_of deck_id) cards\<rparr>)"

definition commander_row_of :: "nat \<Rightarrow> commander_entry \<Rightarrow> commander_row" where
  "commander_row_of deck_id cmd =
     \<lparr>mr_deck_id = deck_id, mr_oracle_id = cm_oracle_id cmd, mr_name = cm_name cmd\<rparr>"

definition insert_deck_commanders :: "nat \<Rightarrow> commander_entry list \<Rightarrow> db \<Rightarrow> db" where
  "insert_deck_commanders deck_id commanders s =
     (let kept = filter (\<lambda>row. mr_deck_id row \<noteq> deck_id) (deck_commanders s)
      in s\<lparr>deck_commanders :=
             kept @ (if commanders \<noteq> [] then map (commander_row_of deck_id) commanders else [])\<rparr>)"

text \<open>\<open>log_unmapped_card\<close>: insert with frequency 1, or add 1 to the frequency of the
  name's row.\<close>

definition log_unmapped_card :: "string \<Rightarrow> db \<Rightarrow> db" where
  "log_unmapped_card card_name s =
     s\<lparr>unmapped_cards :=
         (case map_of (unmapped_cards s) card_name of
            None \<Rightarrow> unmapped_cards s @ [(card_name, 1)]
          | Some f \<Rightarrow> AList.update card_name (f + 1) (unmapped_cards s))\<rparr>"

definition log_ingestion ::
  "string \<Rightarrow> string \<Rightarrow> string \<Rightarrow> nat \<Rightarrow> nat \<Rightarrow> nat \<Rightarrow> nat \<Rightarrow> string option \<Rightarrow> db \<Rightarrow> db"
where
  "log_ingestion source_name operation status decks_processed cards_processed errors_count
       http_429_count message s =
     s\<lparr>ingestion_logs := ingestion_logs s @
         [\<lparr>jr_source_name = source_name, jr_operation = operation, jr_status = status,
           jr_decks_processed = decks_processed, jr_cards_processed = cards_processed,
           jr_errors_count = errors_count, jr_http_429_count = http_429_count,
           jr_message = message\<rparr>]\<rparr>"

text \<open>\<open>get_decks_needing_normalization\<close>: \<open>SELECT DISTINCT deck_id, name, qty, zone ...
  WHERE oracle_id IS NULL LIMIT ?\<close>. SQL leaves the order of the rows open; the table
  order stands for it, a row that occurs again being dropped where it occurs again
  (\<open>rev (remdups (rev rows))\<close> keeps the first of equal rows). A negative LIMIT is no
  limit in SQLite.\<close>

definition get_decks_needing_normalization :: "int \<Rightarrow> db \<Rightarrow> (nat \<times> string \<times> int \<times> string) list" where
  "get_decks_needing_normalization limit s =
     (let rows = map (\<lambda>row. (cr_deck_id row, cr_name row, cr_qty row, cr_zone row))
                   (filter (\<lambda>row. cr_oracle_id row = None) (deck_cards s));
          rows = rev (remdups (rev rows))
      in if limit < 0 then rows else take (nat limit) rows)"

definition update_card_oracle_id :: "nat \<Rightarrow> string \<Rightarrow> string \<Rightarrow> db \<Rightarrow> db" where
  "update_card_oracle_id deck_id card_name oracle_id s =
     s\<lparr>deck_cards :=
         map (\<lambda>row. if cr_deck_id row = deck_id \<and> cr_name row = card_name
                    then row\<lparr>cr_oracle_id := Some oracle_id\<rparr> else row)
             (deck_cards s)\<rparr>"

definition empty_db :: db where
  "empty_db = \<lparr>sources = [], decks = [], deck_cards = [], deck_commanders = [],
               unmapped_cards = [], ingestion_logs = []\<rparr>"

section \<open>The ingestion jobs (src/orchestration/ingestion_job.py)\<close>

text \<open>How both ingestion jobs store a fetched deck:
  \<^verbatim>\<open>
    deck_id = self.db.upsert_deck(source, deck_data['source_deck_id'], deck_data)
    self.db.insert_deck_cards(deck_id, deck_data['cards'])
    if deck_data['commanders']:
        self.db.insert_deck_commanders(deck_id, deck_data['commanders'])
  \<close>\<close>

definition persist_deck :: "string \<Rightarrow> deck_data \<Rightarrow> db \<Rightarrow> nat \<times> db" where
  "persist_deck source_name deck_data s =
     (case upsert_deck source_name (dd_source_deck_id deck_data) deck_data s of
        (deck_id, s) \<Rightarrow>
          (let s = insert_deck_cards deck_id (dd_cards deck_data) True s;
               s = (if dd_commanders deck_data \<noteq> []
                    then insert_deck_commanders deck_id (dd_commanders deck_data) s else s)
           in (deck_id, s)))"

text \<open>Three fetches of one deck, \<open>abc123\<close>: with a commander, without any, and with
  another commander; the card lists differ.\<close>

definition deck_v1 :: deck_data where
  "deck_v1 =
     \<lparr>dd_source_deck_id = ''abc123'', dd_title = Some ''Superfriends'', dd_author = Some ''ann'',
      dd_url = None, dd_format = None, dd_extra = ''{}'',
      dd_cards = [\<lparr>ce_name = ''Sol Ring'', ce_qty = None, ce_oracle_id = None, ce_zone = None\<rparr>,
                  \<lparr>ce_name = ''Atraxa'', ce_qty = Some 1, ce_oracle_id = None,
                   ce_zone = Some ''command''\<rparr>],
      dd_commanders = [\<lparr>cm_name = ''Atraxa'', cm_oracle_id = None\<rparr>]\<rparr>"

definition deck_v2 :: deck_data where
  "deck_v2 =
     \<lparr>dd_source_deck_id = ''abc123'', dd_title = Some ''Islands'', dd_author = Some ''ann'',
      dd_url = None, dd_format = None, dd_extra = ''{}'',
      dd_cards = [\<lparr>ce_name = ''Island'', ce_qty = Some 30, ce_oracle_id = None, ce_zone = None\<rparr>],
      dd_commanders = []\<rparr>"

definition deck_v3 :: deck_data where
  "deck_v3 =
     \<lparr>dd_source_deck_id = ''abc123'', dd_title = Some ''Artifacts'', dd_author = Some ''ann'',
      dd_url = None, dd_format = None, dd_extra = ''{}'',
      dd_cards = [\<lparr>ce_name = ''Karn'', ce_qty = Some 1, ce_oracle_id = None,
                   ce_zone = Some ''command''\<rparr>],
      dd_commanders = [\<lparr>cm_name = ''Karn'', cm_oracle_id = None\<rparr>]\<rparr>"

text \<open>What \<open>adapter.fetch_deck(deck_id)\<close> does in \<open>run_moxfield_export\<close>: it raises, it
  returns \<open>None\<close> (or another false value), or it returns a normalized deck.\<close>

datatype fetch_result = Fetch_raises | Fetch_none | Fetched deck_data

text \<open>
  The loop \<open>for deck_id in processed_ids\<close> of \<open>run_moxfield_export\<close>, on the state
  \<open>(store, total_decks, total_cards, errors)\<close>. An exception in the body is counted by
  the \<open>except\<close> of the unit and the loop goes on. \<open>sleep_ok\<close> says that
  \<open>time.sleep(config[...]['inter_request_sleep'])\<close> at the end of the body succeeds (the
  key is configured, with a duration that is not negative); when it raises, that is
  counted as an error of the unit after the deck was counted. The operations of the store
  themselves are taken not to raise.
\<close>

fun export_loop ::
  "(string \<Rightarrow> fetch_result) \<Rightarrow> bool \<Rightarrow> string list \<Rightarrow> db \<times> nat \<times> nat \<times> nat \<Rightarrow> db \<times> nat \<times> nat \<times> nat"
where
  "export_loop fetch_deck sleep_ok [] st = st"
| "export_loop fetch_deck sleep_ok (deck_id # rest) (s, total_decks, total_cards, errors) =
     export_loop fetch_deck sleep_ok rest
       (case fetch_deck deck_id of
          Fetch_raises \<Rightarrow> (s, total_decks, total_cards, errors + 1)
        | Fetch_none \<Rightarrow>
            (s, total_decks, total_cards, errors + 1 + (if sleep_ok then 0 else 1))
        | Fetched deck_data \<Rightarrow>
            (snd (persist_deck ''moxfield'' deck_data s), total_decks + 1,
             total_cards + length (dd_cards deck_data),
             errors + (if sleep_ok then 0 else 1)))"

text \<open>What a job returns (a Python dict): \<open>status\<close> \<open>skipped\<close> or \<open>error\<close> with a message, or
  \<open>status\<close> \<open>success\<close> with the discovered ids, or \<open>status\<close> \<open>success\<close> with
  \<open>decks_processed\<close>, \<open>cards_processed\<close> and \<open>errors\<close>.\<close>

datatype job_result =
  Skipped string | Job_error string | Discovery_done "string list" | Export_done nat nat nat

text \<open>\<open>run_moxfield_discovery\<close>: \<open>discover\<close> is what \<open>adapter.discover_decks()\<close> does, the
  message of its exception or the ids.\<close>

definition run_moxfield_discovery :: "bool \<Rightarrow> string + string list \<Rightarrow> db \<Rightarrow> job_result \<times> db" where
  "run_moxfield_discovery enabled discover s =
     (if \<not> enabled then (Skipped ''Moxfield adapter not enabled'', s)
      else
        (case discover of
           Inr discovered_ids \<Rightarrow>
             (Discovery_done discovered_ids,
              log_ingestion ''moxfield'' ''discovery'' ''success'' (length discovered_ids) 0 0 0 None s)
         | Inl e \<Rightarrow>
             (Job_error e, log_ingestion ''moxfield'' ''discovery'' ''error'' 0 0 1 0 (Some e) s)))"

text \<open>\<open>xs[:n]\<close>.\<close>

definition py_slice_to :: "int \<Rightarrow> 'a list \<Rightarrow> 'a list" where
  "py_slice_to n xs = (if 0 \<le> n then take (nat n) xs else take (nat (int (length xs) + n)) xs)"

text \<open>\<open>run_moxfield_export(deck_ids, max_decks)\<close>: what it returns and the store it
  leaves, \<open>deck_ids\<close> being \<open>None\<close> when the argument is not given.\<close>

definition run_moxfield_export ::
  "bool \<Rightarrow> string + string list \<Rightarrow> (string \<Rightarrow> fetch_result) \<Rightarrow> bool \<Rightarrow>
   string list option \<Rightarrow> int \<Rightarrow> db \<Rightarrow> job_result \<times> db"
where
  "run_moxfield_export enabled discover fetch_deck sleep_ok deck_ids max_decks s =
     (if \<not> enabled then (Skipped ''Moxfield adapter not enabled'', s)
      else
        (case (case deck_ids of
                 Some (deck_id # rest) \<Rightarrow> Inr (deck_id # rest, s)
               | _ \<Rightarrow>
                   (case run_moxfield_discovery enabled discover s of
                      (Discovery_done discovered_ids, s') \<Rightarrow> Inr (discovered_ids, s')
                    | discovery_result \<Rightarrow> Inl discovery_result)) of
           Inl discovery_result \<Rightarrow> discovery_result
         | Inr (ids, s) \<Rightarrow>
             (let processed_ids = py_slice_to max_decks ids in
              case export_loop fetch_deck sleep_ok processed_ids (s, 0, 0, 0) of
                (s, total_decks, total_cards, errors) \<Rightarrow>
                  (Export_done total_decks total_cards errors,
                   log_ingestion ''moxfield'' ''export''
                     (if errors = 0 then ''success'' else ''partial'')
                     total_decks total_cards errors 0 None s))))"

text \<open>An adapter that fails on the deck \<open>bad\<close> and fetches \<open>deck_v1\<close> for any other id.\<close>

definition fails_on_bad :: "string \<Rightarrow> fetch_result" where
  "fails_on_bad deck_id = (if deck_id = ''bad'' then Fetch_raises else Fetched deck_v1)"

section \<open>The normalization sweep (src/normalization/normalizer.py)\<close>

text \<open>\<open>if oracle_id:\<close> on the result of a resolution: \<open>None\<close> and the empty string are
  false.\<close>

definition truthy :: "string option \<Rightarrow> string option" where
  "truthy oracle_id = (if oracle_id = Some [] then None else oracle_id)"

text \<open>
  The loop \<open>for card_data in pending_cards\<close> of \<open>normalize_all_pending\<close>, on the state
  (store, name index, \<open>total_normalized\<close>, \<open>total_failed\<close>, \<open>processed_decks\<close>) and,
  last, the calls of \<open>resolve_card_name\<close> made so far, as pairs of deck id and card name
  in order: a record of what the loop did, which it does not read. \<open>processed_decks\<close> is
  a Python set, here the list of its elements.
\<close>

fun pending_loop ::
  "bulk_data \<Rightarrow> (nat \<times> string \<times> int \<times> string) list \<Rightarrow>
   db \<times> cache \<times> nat \<times> nat \<times> nat list \<times> (nat \<times> string) list \<Rightarrow>
   db \<times> cache \<times> nat \<times> nat \<times> nat list \<times> (nat \<times> string) list"
where
  "pending_loop bulk [] st = st"
| "pending_loop bulk (card_data # rest)
       (s, c, total_normalized, total_failed, processed_decks, resolved) =
     (let deck_id = fst card_data; card_name = fst (snd card_data) in
      if deck_id \<in> set processed_decks then
        pending_loop bulk rest (s, c, total_normalized, total_failed, processed_decks, resolved)
      else
        (case resolve_card_name bulk card_name c of
           (oracle_id, c) \<Rightarrow>
             (case truthy oracle_id of
                Some oid \<Rightarrow>
                  pending_loop bulk rest
                    (update_card_oracle_id deck_id card_name oid s, c, total_normalized + 1,
                     total_failed, deck_id # processed_decks, resolved @ [(deck_id, card_name)])
              | None \<Rightarrow>
                  pending_loop bulk rest
                    (log_unmapped_card card_name s, c, total_normalized, total_failed + 1,
                     deck_id # processed_decks, resolved @ [(deck_id, card_name)]))))"

record sweep_stats =
  normalized :: nat
  failed :: nat
  unique_decks_processed :: nat

text \<open>
  \<open>normalize_all_pending(limit)\<close>: \<open>Inl\<close> the message of a result with \<open>status\<close> \<open>error\<close>,
  \<open>Inr\<close> the counts of a result with \<open>status\<close> \<open>success\<close>; then the store, the name index
  and the resolutions made. \<open>needs_refresh\<close> and \<open>download_ok\<close> are what
  \<open>scryfall.needs_refresh()\<close> and \<open>scryfall.download_oracle_bulk()\<close> return, \<open>bulk\<close> what
  the build that follows finds.
\<close>

definition normalize_all_pending ::
  "bool \<Rightarrow> bool \<Rightarrow> bulk_data \<Rightarrow> int \<Rightarrow> db \<Rightarrow> cache \<Rightarrow>
   (string + sweep_stats) \<times> db \<times> cache \<times> (nat \<times> string) list"
where
  "normalize_all_pending needs_refresh download_ok bulk limit s c =
     (if needs_refresh \<and> \<not> download_ok then (Inl ''Failed to download Scryfall data'', s, c, [])
      else
        (case build_name_resolver bulk c of
           (False, c) \<Rightarrow> (Inl ''Failed to build name resolver'', s, c, [])
         | (True, c) \<Rightarrow>
             (let pending_cards = get_decks_needing_normalization limit s in
              case pending_loop bulk pending_cards (s, c, 0, 0, [], []) of
                (s, c, total_normalized, total_failed, processed_decks, resolved) \<Rightarrow>
                  (Inr \<lparr>normalized = total_normalized, failed = total_failed,
                        unique_decks_processed = length processed_decks\<rparr>,
                   s, c, resolved))))"

text \<open>A store with two decks whose cards wait for an id: two cards of deck 1, one of
  deck 2; and a dataset that knows Sol Ring.\<close>

definition pending_store :: db where
  "pending_store =
     empty_db\<lparr>deck_cards :=
       [\<lparr>cr_deck_id = 1, cr_name = ''Sol Ring'', cr_qty = 1, cr_oracle_id = None, cr_zone = ''main''\<rparr>,
        \<lparr>cr_deck_id = 1, cr_name = ''Island'', cr_qty = 30, cr_oracle_id = None, cr_zone = ''main''\<rparr>,
        \<lparr>cr_deck_id = 2, cr_name = ''Mystery Card'', cr_qty = 1, cr_oracle_id = None,
         cr_zone = ''main''\<rparr>]\<rparr>"

definition sol_ring_only :: bulk_data where
  "sol_ring_only =
     Cards [\<lparr>rc_oracle_id = ''sol-ring-id'', rc_name = ''Sol Ring'', rc_card_faces = None,
             rc_printed_name = None\<rparr>]"

section \<open>Properties of the name resolver\<close>

lemma normalize_name_shape:
  "normalize_name name = [] \<or> (\<exists>r. normalize_name name = CHR 0x27 # r)"
  by (simp add: normalize_name_def py_replace_def re_sub_quotes_def Let_def)

lemma basic_lands_never_hit: "map_of basic_lands (normalize_name name) = None"
  using normalize_name_shape [of name] by (auto simp: basic_lands_def)

lemma resolve_lookup_memo:
  assumes "resolve_lookup name c = (Some oid, c')"
  shows "map_of c' (normalize_name name) = Some oid"
  using assms
  by (auto simp: resolve_lookup_def Let_def update_conv' split: option.splits)

lemma resolve_lookup_hit:
  assumes "map_of c (normalize_name name) = Some oid"
  shows "resolve_lookup name c = (Some oid, c)"
  using assms by (simp add: resolve_lookup_def)

lemma resolve_card_name_memo:
  assumes "resolve_card_name bulk name c = (Some oid, c')"
  shows "map_of c' (normalize_name name) = Some oid"
proof (cases "c = []")
  case True
  with assms obtain c1 where "build_name_resolver bulk c = (True, c1)"
    and "resolve_lookup name c1 = (Some oid, c')"
    by (auto simp: resolve_card_name_def split: prod.splits bool.splits if_splits)
  then show ?thesis by (simp add: resolve_lookup_memo)
next
  case False
  with assms have "resolve_lookup name c = (Some oid, c')"
    by (simp add: resolve_card_name_def)
  then show ?thesis by (rule resolve_lookup_memo)
qed

lemma same_key_plain: "normalize_name ''lim-dul's hex'' = normalize_name ''Lim-Dul's Hex''"
  by code_simp

text \<open>
  C3, as stated, fails. With the one reference entry named \<open>Lim-D\<close>U+00FB\<open>l's Hex\<close>, the
  name spelled with U+00FB resolves to the entry's id, and the two names spelled with a
  plain \<open>u\<close> resolve to none: \<open>_normalize_name\<close> rewrites U+00E6 and U+00E9 only, and no
  variation touches a letter.
\<close>

theorem name_variation_counterexample:
  "fst (resolve_card_name
     (Cards [\<lparr>rc_oracle_id = ''hex-id'', rc_name = ''Lim-D'' @ [CHR 0xFB] @ ''l's Hex'',
             rc_card_faces = None, rc_printed_name = None\<rparr>])
     (''Lim-D'' @ [CHR 0xFB] @ ''l's Hex'') []) = Some ''hex-id''
   \<and> fst (resolve_card_name
     (Cards [\<lparr>rc_oracle_id = ''hex-id'', rc_name = ''Lim-D'' @ [CHR 0xFB] @ ''l's Hex'',
             rc_card_faces = None, rc_printed_name = None\<rparr>])
     ''lim-dul's hex'' []) = None
   \<and> fst (resolve_card_name
     (Cards [\<lparr>rc_oracle_id = ''hex-id'', rc_name = ''Lim-D'' @ [CHR 0xFB] @ ''l's Hex'',
             rc_card_faces = None, rc_printed_name = None\<rparr>])
     ''Lim-Dul's Hex'' []) = None"
  by code_simp

text \<open>
  C3, amended: the names \<open>lim-dul's hex\<close> and \<open>Lim-Dul's Hex\<close> resolve alike, whatever
  the dataset and the index (case folding gives them one key). Whether the name
  spelled with U+00FB resolves to the same id depends on the spellings the reference
  entry carries. From one entry named \<open>Lim-D\<close>U+00FB\<open>l's Hex\<close>, with no faces and no printed
  name, that name resolves to the entry's id and the two others resolve to none; from one
  entry named \<open>Lim-Dul's Hex\<close>, the two others resolve to the entry's id and the name
  spelled with U+00FB resolves to none; from one entry named \<open>Lim-D\<close>U+00FB\<open>l's Hex\<close>
  whose \<open>printed_name\<close> is \<open>Lim-Dul's Hex\<close>, the three names resolve to the entry's id.
\<close>

theorem name_variation_case_folding:
  "resolve_card_name bulk ''lim-dul's hex'' c = resolve_card_name bulk ''Lim-Dul's Hex'' c
   \<and> fst (resolve_card_name
     (Cards [\<lparr>rc_oracle_id = oid, rc_name = ''Lim-D'' @ [CHR 0xFB] @ ''l's Hex'',
             rc_card_faces = None, rc_printed_name = None\<rparr>])
     (''Lim-D'' @ [CHR 0xFB] @ ''l's Hex'') []) = Some oid
   \<and> fst (resolve_card_name
     (Cards [\<lparr>rc_oracle_id = oid, rc_name = ''Lim-D'' @ [CHR 0xFB] @ ''l's Hex'',
             rc_card_faces = None, rc_printed_name = None\<rparr>])
     ''lim-dul's hex'' []) = None
   \<and> fst (resolve_card_name
     (Cards [\<lparr>rc_oracle_id = oid, rc_name = ''Lim-D'' @ [CHR 0xFB] @ ''l's Hex'',
             rc_card_faces = None, rc_printed_name = None\<rparr>])
     ''Lim-Dul's Hex'' []) = None
   \<and> fst (resolve_card_name
     (Cards [\<lparr>rc_oracle_id = oid, rc_name = ''Lim-Dul's Hex'',
             rc_card_faces = None, rc_printed_name = None\<rparr>])
     ''lim-dul's hex'' []) = Some oid
   \<and> fst (resolve_card_name
     (Cards [\<lparr>rc_oracle_id = oid, rc_name = ''Lim-Dul's Hex'',
             rc_card_faces = None, rc_printed_name = None\<rparr>])
     ''Lim-Dul's Hex'' []) = Some oid
   \<and> fst (resolve_card_name
     (Cards [\<lparr>rc_oracle_id = oid, rc_name = ''Lim-Dul's Hex'',
             rc_card_faces = None, rc_printed_name = None\<rparr>])
     (''Lim-D'' @ [CHR 0xFB] @ ''l's Hex'') []) = None
   \<and> fst (resolve_card_name
     (Cards [\<lparr>rc_oracle_id = oid, rc_name = ''Lim-D'' @ [CHR 0xFB] @ ''l's Hex'',
             rc_card_faces = None, rc_printed_name = Some ''Lim-Dul's Hex''\<rparr>])
     (''Lim-D'' @ [CHR 0xFB] @ ''l's Hex'') []) = Some oid
   \<and> fst (resolve_card_name
     (Cards [\<lparr>rc_oracle_id = oid, rc_name = ''Lim-D'' @ [CHR 0xFB] @ ''l's Hex'',
             rc_card_faces = None, rc_printed_name = Some ''Lim-Dul's Hex''\<rparr>])
     ''lim-dul's hex'' []) = Some oid
   \<and> fst (resolve_card_name
     (Cards [\<lparr>rc_oracle_id = oid, rc_name = ''Lim-D'' @ [CHR 0xFB] @ ''l's Hex'',
             rc_card_faces = None, rc_printed_name = Some ''Lim-Dul's Hex''\<rparr>])
     ''Lim-Dul's Hex'' []) = Some oid"
proof -
  have rl: "resolve_lookup ''lim-dul's hex'' d = resolve_lookup ''Lim-Dul's Hex'' d" for d
    unfolding resolve_lookup_def same_key_plain ..
  have alike:
    "resolve_card_name bulk ''lim-dul's hex'' c = resolve_card_name bulk ''Lim-Dul's Hex'' c"
    unfolding resolve_card_name_def rl ..
  have c1: "fst (resolve_card_name
     (Cards [\<lparr>rc_oracle_id = oid, rc_name = ''Lim-D'' @ [CHR 0xFB] @ ''l's Hex'',
             rc_card_faces = None, rc_printed_name = None\<rparr>])
     (''Lim-D'' @ [CHR 0xFB] @ ''l's Hex'') []) = Some oid"
    by code_simp
  have c2: "fst (resolve_card_name
     (Cards [\<lparr>rc_oracle_id = oid, rc_name = ''Lim-D'' @ [CHR 0xFB] @ ''l's Hex'',
             rc_card_faces = None, rc_printed_name = None\<rparr>])
     ''lim-dul's hex'' []) = None"
    by code_simp
  have c3: "fst (resolve_card_name
     (Cards [\<lparr>rc_oracle_id = oid, rc_name = ''Lim-D'' @ [CHR 0xFB] @ ''l's Hex'',
             rc_card_faces = None, rc_printed_name = None\<rparr>])
     ''Lim-Dul's Hex'' []) = None"
    by code_simp
  have u1: "fst (resolve_card_name
     (Cards [\<lparr>rc_oracle_id = oid, rc_name = ''Lim-Dul's Hex'',
             rc_card_faces = None, rc_printed_name = None\<rparr>])
     ''lim-dul's hex'' []) = Some oid"
    by code_simp
  have u2: "fst (resolve_card_name
     (Cards [\<lparr>rc_oracle_id = oid, rc_name = ''Lim-Dul's Hex'',
             rc_card_faces = None, rc_printed_name = None\<rparr>])
     ''Lim-Dul's Hex'' []) = Some oid"
    by code_simp
  have u3: "fst (resolve_card_name
     (Cards [\<lparr>rc_oracle_id = oid, rc_name = ''Lim-Dul's Hex'',
             rc_card_faces = None, rc_printed_name = None\<rparr>])
     (''Lim-D'' @ [CHR 0xFB] @ ''l's Hex'') []) = None"
    by code_simp
  have b1: "fst (resolve_card_name
     (Cards [\<lparr>rc_oracle_id = oid, rc_name = ''Lim-D'' @ [CHR 0xFB] @ ''l's Hex'',
             rc_card_faces = None, rc_printed_name = Some ''Lim-Dul's Hex''\<rparr>])
     (''Lim-D'' @ [CHR 0xFB] @ ''l's Hex'') []) = Some oid"
    by code_simp
  have b2: "fst (resolve_card_name
     (Cards [\<lparr>rc_oracle_id = oid, rc_name = ''Lim-D'' @ [CHR 0xFB] @ ''l's Hex'',
             rc_card_faces = None, rc_printed_name = Some ''Lim-Dul's Hex''\<rparr>])
     ''lim-dul's hex'' []) = Some oid"
    by code_simp
  have b3: "fst (resolve_card_name
     (Cards [\<lparr>rc_oracle_id = oid, rc_name = ''Lim-D'' @ [CHR 0xFB] @ ''l's Hex'',
             rc_card_faces = None, rc_printed_name = Some ''Lim-Dul's Hex''\<rparr>])
     ''Lim-Dul's Hex'' []) = Some oid"
    by code_simp
  from alike c1 c2 c3 u1 u2 u3 b1 b2 b3 show ?thesis by blast
qed

text \<open>
  C4: the basic-land table is never reached. \<open>_normalize_name\<close> returns the empty string
  or a string that starts with an apostrophe (its \<open>replace('', "'")\<close> puts one before
  every character), and no key of \<open>basic_lands\<close> is either; so \<open>Forest\<close> resolves to none
  from a dataset that was read and holds no entry, and from an index that holds another
  card only. (From an index that holds the card, the direct lookup answers.)
\<close>

theorem forest_not_resolved:
  "map_of basic_lands (normalize_name name) = None
   \<and> normalize_name ''Forest'' =
       [CHR 0x27, CHR ''f'', CHR 0x27, CHR ''o'', CHR 0x27, CHR ''r'', CHR 0x27, CHR ''e'',
        CHR 0x27, CHR ''s'', CHR 0x27, CHR ''t'', CHR 0x27]
   \<and> resolve_card_name (Cards []) ''Forest'' [] = (None, [])
   \<and> fst (resolve_card_name bulk ''Forest'' [(normalize_name ''Sol Ring'', ''sol-ring-id'')]) = None"
proof -
  have "normalize_name ''Forest'' =
       [CHR 0x27, CHR ''f'', CHR 0x27, CHR ''o'', CHR 0x27, CHR ''r'', CHR 0x27, CHR ''e'',
        CHR 0x27, CHR ''s'', CHR 0x27, CHR ''t'', CHR 0x27]" by code_simp
  moreover have "resolve_card_name (Cards []) ''Forest'' [] = (None, [])" by code_simp
  moreover have "fst (resolve_lookup ''Forest'' [(normalize_name ''Sol Ring'', ''sol-ring-id'')]) = None"
    by code_simp
  then have "fst (resolve_card_name bulk ''Forest'' [(normalize_name ''Sol Ring'', ''sol-ring-id'')]) = None"
    by (simp add: resolve_card_name_def)
  ultimately show ?thesis using basic_lands_never_hit by blast
qed

text \<open>
  C7: a name that resolved once resolves again, to the same id, from the index the first
  resolution left, whatever a rebuild would find (the index is not empty, so none is
  attempted); and the index maps the name's normalized key to that id, so the second
  lookup is a direct hit. This covers a hit through a variation, where the first
  resolution stores the normalized key.
\<close>

theorem resolve_twice:
  assumes "resolve_card_name bulk name c = (Some oid, c')"
  shows "resolve_card_name bulk' name c' = (Some oid, c') \<and>
         map_of c' (normalize_name name) = Some oid"
proof -
  have m: "map_of c' (normalize_name name) = Some oid"
    using assms by (rule resolve_card_name_memo)
  then have "c' \<noteq> []" by auto
  then have "resolve_card_name bulk' name c' = resolve_lookup name c'"
    by (simp add: resolve_card_name_def)
  with m show ?thesis by (simp add: resolve_lookup_hit)
qed

theorem resolve_twice_witness:
  "resolve_card_name
     (Cards [\<lparr>rc_oracle_id = ''forest-id'', rc_name = ''Forest'', rc_card_faces = None,
             rc_printed_name = None\<rparr>]) ''Forest'' [] =
     (Some ''forest-id'', [(normalize_name ''Forest'', ''forest-id'')])
   \<and> resolve_card_name No_file ''Forest'' [(normalize_name ''Forest'', ''forest-id'')] =
     (Some ''forest-id'', [(normalize_name ''Forest'', ''forest-id'')])
   \<and> map_of [(normalize_name ''Forest'', ''forest-id'')] (normalize_name ''Forest'') =
     Some ''forest-id''"
proof -
  have h: "resolve_card_name
     (Cards [\<lparr>rc_oracle_id = ''forest-id'', rc_name = ''Forest'', rc_card_faces = None,
             rc_printed_name = None\<rparr>]) ''Forest'' [] =
     (Some ''forest-id'', [(normalize_name ''Forest'', ''forest-id'')])"
    by code_simp
  show ?thesis using h resolve_twice [OF h, of No_file] by simp
qed

section \<open>Properties of the request engine\<close>

lemma attempts_gets:
  "length (filter (\<lambda>e. e = Get)
     (fst (attempts server backoff_error max_sleep max_retries n attempt))) \<le> n"
proof (induction n arbitrary: attempt)
  case 0
  show ?case by simp
next
  case (Suc n)
  show ?case
    using Suc.IH [of "Suc attempt"]
    by (auto simp: Let_def split: http_outcome.splits prod.splits option.splits)
qed

lemma attempts_starts_with_get:
  "\<exists>effects. fst (attempts server backoff_error max_sleep max_retries (Suc n) attempt) =
     Get # effects"
  by (auto simp: Let_def split: http_outcome.splits prod.splits option.splits)

text \<open>
  C2, as stated, fails: a 429 uses up one of the \<open>max_retries + 1\<close> iterations of the
  loop. With \<open>max_retries = 1\<close>, a 429 followed by one failure ends the call with that
  failure after two requests, although no failure had been retried yet and the third
  request would have been served; with \<open>max_retries = 0\<close>, a 429 is waited out and no
  request follows: the method returns \<open>None\<close>.
\<close>

theorem rate_limit_counted_counterexample:
  "make_request throttling_then_failing backoff_sleeps one_day 1 =
     ([Rate_limit, Get, Sleep_retry_after 60, Get], Inl (RequestException ''timeout''))
   \<and> throttling_then_failing 2 = Succeeded ''page''
   \<and> make_request throttling_once backoff_sleeps one_day 0 =
     ([Rate_limit, Get, Sleep_retry_after 5], Inr None)"
  by code_simp

text \<open>
  C2, amended: a 429 whose cooldown (the \<open>Retry-After\<close> header read as an integer, 60
  seconds when the header is absent) is a duration that \<open>time.sleep\<close> accepts (not
  negative and not beyond the platform's limit) causes a wait for that cooldown and,
  while an attempt remains, a retry of the request; every 429 counts against the budget
  as a failure does, so that a call issues at most \<open>max_retries + 1\<close> requests in all.
  (The loop is stated with \<open>Suc (Suc n)\<close> iterations left: the current one and at least
  one more.)
\<close>

theorem rate_limit_wait_then_retry:
  "length (filter (\<lambda>e. e = Get) (fst (make_request server backoff_error max_sleep max_retries)))
     \<le> nat (max_retries + 1)
   \<and> (server attempt = Rate_limited header \<and> retry_after_of header = Some cooldown
        \<and> sleep_error max_sleep cooldown = None \<longrightarrow>
        (\<exists>effects.
           fst (attempts server backoff_error max_sleep max_retries (Suc (Suc n)) attempt) =
           Get # Sleep_retry_after cooldown # Get # effects))"
proof -
  have "length (filter (\<lambda>e. e = Get) (fst (make_request server backoff_error max_sleep max_retries)))
      \<le> nat (max_retries + 1)"
    using attempts_gets [of server backoff_error max_sleep max_retries "nat (max_retries + 1)" 0]
    by (cases "attempts server backoff_error max_sleep max_retries (nat (max_retries + 1)) 0")
       (simp add: make_request_def)
  moreover have "\<exists>effects.
      fst (attempts server backoff_error max_sleep max_retries (Suc (Suc n)) attempt) =
      Get # Sleep_retry_after cooldown # Get # effects"
    if "server attempt = Rate_limited header" and "retry_after_of header = Some cooldown"
      and "sleep_error max_sleep cooldown = None"
  proof -
    obtain effects where
      "fst (attempts server backoff_error max_sleep max_retries (Suc n) (Suc attempt)) = Get # effects"
      using attempts_starts_with_get by blast
    with that show ?thesis
      by (cases "attempts server backoff_error max_sleep max_retries (Suc n) (Suc attempt)") simp
  qed
  ultimately show ?thesis by blast
qed

theorem rate_limit_wait_then_retry_witness:
  "length (filter (\<lambda>e. e = Get) (fst (make_request throttling_once backoff_sleeps one_day 1)))
     \<le> nat (1 + 1)
   \<and> throttling_once 0 = Rate_limited (Int_header 5) \<and> retry_after_of (Int_header 5) = Some 5
   \<and> sleep_error one_day 5 = None
   \<and> (\<exists>effects. fst (attempts throttling_once backoff_sleeps one_day 1 (Suc (Suc 0)) 0) =
           Get # Sleep_retry_after 5 # Get # effects)"
proof -
  have a: "throttling_once 0 = Rate_limited (Int_header 5)" by (simp add: throttling_once_def)
  have b: "retry_after_of (Int_header 5) = Some 5" by (simp add: retry_after_of_def)
  have c: "sleep_error one_day 5 = None" by (simp add: sleep_error_def one_day_def)
  show ?thesis
    using a b c
      rate_limit_wait_then_retry [of throttling_once backoff_sleeps one_day 1 0 "Int_header 5" 5 0]
    by simp
qed


section \<open>Properties of the discovery\<close>

lemma top_loop_stop:
  "\<not> int page \<le> mp \<Longrightarrow> top_loop server ms dr mp p page acc = (acc, [])"
  by (subst top_loop.simps) simp

lemma top_loop_empty:
  "int page \<le> mp \<Longrightarrow> discover_deck_ids_by_commander server page = [] \<Longrightarrow>
   top_loop server ms dr mp p page acc = (acc, [Fetch page])"
  by (subst top_loop.simps) simp

lemma top_loop_last:
  "int page = mp \<Longrightarrow> discover_deck_ids_by_commander server page \<noteq> [] \<Longrightarrow>
   top_loop server ms dr mp p page acc =
     (acc @ discover_deck_ids_by_commander server page, [Fetch page])"
  by (subst top_loop.simps) (simp add: Let_def)

lemma top_loop_sleep_raises:
  "int page < mp \<Longrightarrow> discover_deck_ids_by_commander server page \<noteq> [] \<Longrightarrow>
   sleep_raises ms p (dr page) \<Longrightarrow>
   top_loop server ms dr mp p page acc =
     (acc @ discover_deck_ids_by_commander server page, [Fetch page])"
  by (subst top_loop.simps) (simp add: Let_def)

lemma top_loop_step:
  "int page < mp \<Longrightarrow> discover_deck_ids_by_commander server page \<noteq> [] \<Longrightarrow>
   \<not> sleep_raises ms p (dr page) \<Longrightarrow>
   top_loop server ms dr mp p page acc =
     (fst (top_loop server ms dr mp p (Suc page) (acc @ discover_deck_ids_by_commander server page)),
      Fetch page # Delay (of_int p / 2) (of_int p) #
      snd (top_loop server ms dr mp p (Suc page) (acc @ discover_deck_ids_by_commander server page)))"
  by (subst top_loop.simps) (simp add: Let_def split: prod.splits)

lemma top_loop_cases:
  obtains (stop) "\<not> int page \<le> mp"
  | (empty) "int page \<le> mp" "discover_deck_ids_by_commander server page = []"
  | (last) "int page = mp" "discover_deck_ids_by_commander server page \<noteq> []"
  | (raises) "int page < mp" "discover_deck_ids_by_commander server page \<noteq> []"
      "sleep_raises ms p (dr page)"
  | (step) "int page < mp" "discover_deck_ids_by_commander server page \<noteq> []"
      "\<not> sleep_raises ms p (dr page)"
  by (cases "int page \<le> mp"; cases "discover_deck_ids_by_commander server page = []";
      cases "int page = mp"; cases "sleep_raises ms p (dr page)") auto

lemma top_loop_ids:
  "fst (top_loop server ms dr mp p page acc) =
   acc @ concat (map (discover_deck_ids_by_commander server)
                   (fetched (snd (top_loop server ms dr mp p page acc))))"
proof (induction "nat (mp + 1 - int page)" arbitrary: page acc)
  case 0
  then show ?case by (simp add: top_loop_stop)
next
  case (Suc k)
  show ?case
  proof (cases rule: top_loop_cases [where page = page and mp = mp and server = server and p = p and ms = ms and dr = dr])
    case stop
    then show ?thesis by (simp add: top_loop_stop)
  next
    case empty
    then show ?thesis by (simp add: top_loop_empty)
  next
    case last
    then show ?thesis by (simp add: top_loop_last)
  next
    case raises
    then show ?thesis by (simp add: top_loop_sleep_raises)
  next
    case step
    have "k = nat (mp + 1 - int (Suc page))" using Suc.hyps(2) by simp
    from Suc.hyps(1) [OF this] show ?thesis using step by (simp add: top_loop_step)
  qed
qed

lemma top_loop_first_event:
  "int page \<le> mp \<Longrightarrow> \<exists>events. snd (top_loop server ms dr mp p page acc) = Fetch page # events"
  by (cases rule: top_loop_cases [where page = page and mp = mp and server = server and p = p and ms = ms and dr = dr])
     (simp_all add: top_loop_empty top_loop_last top_loop_sleep_raises top_loop_step)

lemma sleep_accepted:
  "0 \<le> p \<Longrightarrow> p \<le> ms \<Longrightarrow> \<not> sleep_raises ms p high"
  by (simp add: sleep_raises_def)

lemma fetched_range:
  assumes "0 \<le> p \<and> p \<le> ms" and "page \<le> j" and "int j \<le> mp"
    and "\<forall>n. page \<le> n \<and> n < j \<longrightarrow> discover_deck_ids_by_commander server n \<noteq> []"
    and "discover_deck_ids_by_commander server j = [] \<or> int j = mp"
  shows "fetched (snd (top_loop server ms dr mp p page acc)) = [page..<Suc j]"
  using assms(2,4)
proof (induction "j - page" arbitrary: page acc)
  case 0
  then have "page = j" by simp
  then show ?case
    using assms(3,5)
    by (cases "discover_deck_ids_by_commander server j = []")
       (auto simp: top_loop_empty top_loop_last)
next
  case (Suc k)
  then have lt: "page < j" by simp
  with Suc.prems assms(3) have ne: "discover_deck_ids_by_commander server page \<noteq> []"
    and pm: "int page < mp" by auto
  have "fetched (snd (top_loop server ms dr mp p (Suc page)
          (acc @ discover_deck_ids_by_commander server page))) = [Suc page..<Suc j]"
    using Suc.hyps(2) Suc.prems lt by (intro Suc.hyps(1)) auto
  then show ?case
    using ne pm assms(1) lt by (simp add: top_loop_step sleep_accepted upt_conv_Cons)
qed

lemma fetched_not_beyond_empty:
  assumes "discover_deck_ids_by_commander server j = []" and "page \<le> j"
  shows "\<forall>n\<in>set (fetched (snd (top_loop server ms dr mp p page acc))). n \<le> j"
  using assms(2)
proof (induction "j - page" arbitrary: page acc)
  case 0
  then have "page = j" by simp
  then show ?case
    using assms(1) by (cases "int page \<le> mp") (simp_all add: top_loop_empty top_loop_stop)
next
  case (Suc k)
  then have lt: "page < j" by simp
  show ?case
  proof (cases rule: top_loop_cases [where page = page and mp = mp and server = server and p = p and ms = ms and dr = dr])
    case step
    have "\<forall>n\<in>set (fetched (snd (top_loop server ms dr mp p (Suc page)
          (acc @ discover_deck_ids_by_commander server page)))). n \<le> j"
      using Suc.hyps(2) lt by (intro Suc.hyps(1)) auto
    then show ?thesis using step lt by (simp add: top_loop_step)
  qed (use lt in \<open>simp_all add: top_loop_stop top_loop_empty top_loop_last top_loop_sleep_raises\<close>)
qed

lemma trace_shape:
  "snd (top_loop server ms dr mp p page acc) =
     (let pages = fetched (snd (top_loop server ms dr mp p page acc)) in
      if pages = [] then []
      else concat (map (\<lambda>n. [Fetch n, Delay (of_int p / 2) (of_int p)]) (butlast pages)) @
           [Fetch (last pages)])"
proof (induction "nat (mp + 1 - int page)" arbitrary: page acc)
  case 0
  then show ?case by (simp add: top_loop_stop)
next
  case (Suc k)
  show ?case
  proof (cases rule: top_loop_cases [where page = page and mp = mp and server = server and p = p and ms = ms and dr = dr])
    case step
    let ?r = "top_loop server ms dr mp p (Suc page) (acc @ discover_deck_ids_by_commander server page)"
    have "k = nat (mp + 1 - int (Suc page))" using Suc.hyps(2) by simp
    note ih = Suc.hyps(1) [OF this, of "acc @ discover_deck_ids_by_commander server page"]
    obtain events where ev: "snd ?r = Fetch (Suc page) # events"
      using top_loop_first_event [where page = "Suc page" and mp = mp and server = server and p = p
          and ms = ms and dr = dr] step(1)
      by auto
    then have ne: "fetched (snd ?r) \<noteq> []" by simp
    have "snd (top_loop server ms dr mp p page acc) = Fetch page # Delay (of_int p / 2) (of_int p) # snd ?r"
      using step by (simp add: top_loop_step)
    moreover have "snd ?r = concat (map (\<lambda>n. [Fetch n, Delay (of_int p / 2) (of_int p)])
        (butlast (fetched (snd ?r)))) @ [Fetch (last (fetched (snd ?r)))]"
      using ih ne by (simp add: Let_def)
    ultimately show ?thesis using ne by (simp add: Let_def)
  qed (simp_all add: top_loop_stop top_loop_empty top_loop_last top_loop_sleep_raises)
qed

lemma discover_top_events:
  "snd (discover_top_viewed_deck_ids_by_commander server ms dr mp p) = snd (top_loop server ms dr mp p 1 [])"
  by (simp add: discover_top_viewed_deck_ids_by_commander_def split: prod.splits)

lemma discover_top_ids:
  "fst (discover_top_viewed_deck_ids_by_commander server ms dr mp p) =
   py_list_set (fst (top_loop server ms dr mp p 1 []))"
  by (simp add: discover_top_viewed_deck_ids_by_commander_def split: prod.splits)

lemma delay_events:
  "Delay lo hi \<in> set (snd (top_loop server ms dr mp p page acc)) \<Longrightarrow>
   0 \<le> p \<and> lo = of_int p / 2 \<and> hi = of_int p"
proof (induction "nat (mp + 1 - int page)" arbitrary: page acc)
  case 0
  then show ?case by (simp add: top_loop_stop)
next
  case (Suc k)
  show ?case
  proof (cases rule: top_loop_cases [where page = page and mp = mp and server = server and p = p and ms = ms and dr = dr])
    case step
    have "k = nat (mp + 1 - int (Suc page))" using Suc.hyps(2) by simp
    note ih = Suc.hyps(1) [OF this, of "acc @ discover_deck_ids_by_commander server page"]
    show ?thesis using Suc.prems step ih by (auto simp: top_loop_step sleep_raises_def)
  qed (use Suc.prems in \<open>simp_all add: top_loop_stop top_loop_empty top_loop_last top_loop_sleep_raises\<close>)
qed

lemma fetched_consecutive:
  "fetched (snd (top_loop server ms dr mp p page acc)) =
   [page..<page + length (fetched (snd (top_loop server ms dr mp p page acc)))]"
proof (induction "nat (mp + 1 - int page)" arbitrary: page acc)
  case 0
  then show ?case by (simp add: top_loop_stop)
next
  case (Suc k)
  show ?case
  proof (cases rule: top_loop_cases [where page = page and mp = mp and server = server and p = p and ms = ms and dr = dr])
    case step
    have "k = nat (mp + 1 - int (Suc page))" using Suc.hyps(2) by simp
    note ih = Suc.hyps(1) [OF this, of "acc @ discover_deck_ids_by_commander server page"]
    let ?rest = "fetched (snd (top_loop server ms dr mp p (Suc page)
        (acc @ discover_deck_ids_by_commander server page)))"
    from ih have "page # ?rest = page # [Suc page..<Suc page + length ?rest]"
      by (rule arg_cong)
    also have "\<dots> = [page..<page + Suc (length ?rest)]"
      by (simp add: upt_conv_Cons del: upt_Suc)
    finally show ?thesis using step by (simp add: top_loop_step del: upt_Suc)
  qed (simp_all add: top_loop_stop top_loop_empty top_loop_last top_loop_sleep_raises)
qed

lemma set_all_ids:
  "set (fst (top_loop server ms dr mp p page [])) =
   (\<Union>n\<in>set (fetched (snd (top_loop server ms dr mp p page []))).
      set (discover_deck_ids_by_commander server n))"
  by (subst top_loop_ids) simp

lemma all_ids_of_pages:
  assumes "0 \<le> p \<and> p \<le> ms" and "int m \<le> mp"
    and "\<forall>n. 1 \<le> n \<and> n \<le> m \<longrightarrow> discover_deck_ids_by_commander server n \<noteq> []"
    and "int m = mp \<or> discover_deck_ids_by_commander server (Suc m) = []"
  shows "set (fst (top_loop server ms dr mp p 1 [])) =
         (\<Union>n\<in>{1..m}. set (discover_deck_ids_by_commander server n))"
proof -
  consider (more) "int (Suc m) \<le> mp" | (full) "int m = mp" "1 \<le> m" | (none) "m = 0" "mp = 0"
    using assms(2) by atomize_elim presburger
  then show ?thesis
  proof cases
    case more
    with assms(4) have e: "discover_deck_ids_by_commander server (Suc m) = []" by auto
    have "fetched (snd (top_loop server ms dr mp p 1 [])) = [1..<Suc (Suc m)]"
      using assms(1,3) more e by (intro fetched_range) auto
    then have "set (fst (top_loop server ms dr mp p 1 [])) =
        (\<Union>n\<in>{1..<Suc (Suc m)}. set (discover_deck_ids_by_commander server n))"
      unfolding set_all_ids by (simp only: set_upt)
    also have "{1..<Suc (Suc m)} = insert (Suc m) {1..m}" by auto
    finally show ?thesis using e by simp
  next
    case full
    have "fetched (snd (top_loop server ms dr mp p 1 [])) = [1..<Suc m]"
      using assms(1,3) full by (intro fetched_range) auto
    then have "set (fst (top_loop server ms dr mp p 1 [])) =
        (\<Union>n\<in>{1..<Suc m}. set (discover_deck_ids_by_commander server n))"
      unfolding set_all_ids by (simp only: set_upt)
    also have "{1..<Suc m} = {1..m}" by auto
    finally show ?thesis .
  next
    case none
    then show ?thesis by (simp add: top_loop_stop)
  qed
qed

text \<open>
  C5: when the politeness sleeps work (\<open>politeness_seconds\<close> is a duration that
  \<open>time.sleep\<close> accepts: not negative and not beyond the platform's limit), the search
  requests the pages 1, 2, ... in order and halts on the first page \<open>j \<le> max_pages\<close>
  that yields no identifier (the pages \<open>1 .. j\<close> are requested, nothing after); when
  every page up to \<open>max_pages\<close> yields identifiers, it requests exactly the pages
  \<open>1 .. max_pages\<close>, never fewer. Whatever the sleeps do, no page after an empty page
  is requested.
\<close>

theorem pagination_stop:
  "(0 \<le> p \<and> p \<le> max_sleep \<and> 1 \<le> j \<and> int j \<le> max_pages
      \<and> (\<forall>n. 1 \<le> n \<and> n < j \<longrightarrow> discover_deck_ids_by_commander server n \<noteq> [])
      \<and> discover_deck_ids_by_commander server j = []
    \<longrightarrow> fetched (snd (discover_top_viewed_deck_ids_by_commander server max_sleep high_draw max_pages p)) =
        [1..<Suc j])
   \<and> (0 \<le> p \<and> p \<le> max_sleep
      \<and> (\<forall>n. 1 \<le> n \<and> int n \<le> max_pages \<longrightarrow> discover_deck_ids_by_commander server n \<noteq> [])
    \<longrightarrow> fetched (snd (discover_top_viewed_deck_ids_by_commander server max_sleep high_draw max_pages p)) =
        [1..<Suc (nat max_pages)])
   \<and> (1 \<le> j \<and> discover_deck_ids_by_commander server j = []
    \<longrightarrow> (\<forall>n\<in>set (fetched (snd (discover_top_viewed_deck_ids_by_commander server max_sleep high_draw max_pages p))).
          n \<le> j))"
proof (intro conjI impI)
  assume "0 \<le> p \<and> p \<le> max_sleep \<and> 1 \<le> j \<and> int j \<le> max_pages
      \<and> (\<forall>n. 1 \<le> n \<and> n < j \<longrightarrow> discover_deck_ids_by_commander server n \<noteq> [])
      \<and> discover_deck_ids_by_commander server j = []"
  then show "fetched (snd (discover_top_viewed_deck_ids_by_commander server max_sleep high_draw max_pages p)) =
      [1..<Suc j]"
    unfolding discover_top_events by (intro fetched_range) auto
next
  assume a: "0 \<le> p \<and> p \<le> max_sleep
      \<and> (\<forall>n. 1 \<le> n \<and> int n \<le> max_pages \<longrightarrow> discover_deck_ids_by_commander server n \<noteq> [])"
  show "fetched (snd (discover_top_viewed_deck_ids_by_commander server max_sleep high_draw max_pages p)) =
        [1..<Suc (nat max_pages)]"
  proof (cases "1 \<le> max_pages")
    case True
    with a show ?thesis
      unfolding discover_top_events by (intro fetched_range) auto
  next
    case False
    then show ?thesis
      unfolding discover_top_events by (simp add: top_loop_stop)
  qed
next
  assume "1 \<le> j \<and> discover_deck_ids_by_commander server j = []"
  then show "\<forall>n\<in>set (fetched (snd (discover_top_viewed_deck_ids_by_commander server max_sleep high_draw max_pages p))).
          n \<le> j"
    unfolding discover_top_events by (intro fetched_not_beyond_empty) auto
qed

theorem pagination_stop_witness:
  "(0::int) \<le> 2 \<and> 2 \<le> one_day
   \<and> discover_deck_ids_by_commander two_pages_of_results 1 \<noteq> []
   \<and> discover_deck_ids_by_commander two_pages_of_results 2 \<noteq> []
   \<and> discover_deck_ids_by_commander two_pages_of_results 3 = []
   \<and> fetched (snd (discover_top_viewed_deck_ids_by_commander two_pages_of_results one_day low_draws 5 2)) = [1, 2, 3]
   \<and> fetched (snd (discover_top_viewed_deck_ids_by_commander same_deck_on_every_page one_day low_draws 3 2)) = [1, 2, 3]"
proof -
  have s: "(0::int) \<le> 2 \<and> 2 \<le> one_day" by (simp add: one_day_def)
  have p1: "discover_deck_ids_by_commander two_pages_of_results 1 \<noteq> []" by code_simp
  have p2: "discover_deck_ids_by_commander two_pages_of_results 2 \<noteq> []" by code_simp
  have p3: "discover_deck_ids_by_commander two_pages_of_results 3 = []" by code_simp
  have before: "\<forall>n. 1 \<le> n \<and> n < 3 \<longrightarrow> discover_deck_ids_by_commander two_pages_of_results n \<noteq> []"
  proof (intro allI impI)
    fix n :: nat
    assume "1 \<le> n \<and> n < 3"
    then have "n = 1 \<or> n = 2" by auto
    with p1 p2 show "discover_deck_ids_by_commander two_pages_of_results n \<noteq> []" by auto
  qed
  have "extract_deck_ids_from_html (Links [''/decks/42/the-deck'']) = [''42'']" by code_simp
  then have every: "\<forall>n. 1 \<le> n \<and> int n \<le> 3 \<longrightarrow> discover_deck_ids_by_commander same_deck_on_every_page n \<noteq> []"
    by (simp add: discover_deck_ids_by_commander_def same_deck_on_every_page_def)
  have "fetched (snd (discover_top_viewed_deck_ids_by_commander two_pages_of_results one_day low_draws 5 2)) = [1..<Suc 3]"
    using pagination_stop [where p = 2 and j = 3 and max_pages = 5 and server = two_pages_of_results
        and max_sleep = one_day and high_draw = low_draws] before p3 s
    by simp
  moreover have "fetched (snd (discover_top_viewed_deck_ids_by_commander same_deck_on_every_page one_day low_draws 3 2)) = [1..<Suc (nat 3)]"
    using pagination_stop [where p = 2 and j = 3 and max_pages = 3 and server = same_deck_on_every_page
        and max_sleep = one_day and high_draw = low_draws] every s
    by simp
  moreover have "[1..<Suc 3] = [1, 2, 3::nat]" "[1..<Suc (nat 3)] = [1, 2, 3::nat]" by code_simp+
  ultimately show ?thesis using p1 p2 p3 s by simp
qed

text \<open>
  C9: the events of a search are the requests of the pages \<open>1 .. k\<close> in order, with one
  politeness sleep between each request and the next and none after the last request,
  however the loop ended; each sleep is \<open>random.uniform(politeness_seconds / 2,
  politeness_seconds)\<close>, and where one happens \<open>0 \<le> politeness_seconds / 2 \<le>
  politeness_seconds\<close>. (That the value is uniform on the interval is the contract of
  \<open>random.uniform\<close>, which the event stands for.)
\<close>

theorem politeness_between_fetches:
  "snd (discover_top_viewed_deck_ids_by_commander server max_sleep high_draw max_pages p) =
     (let pages = fetched (snd (discover_top_viewed_deck_ids_by_commander server max_sleep high_draw max_pages p)) in
      if pages = [] then []
      else concat (map (\<lambda>n. [Fetch n, Delay (of_int p / 2) (of_int p)]) (butlast pages)) @
           [Fetch (last pages)])
   \<and> fetched (snd (discover_top_viewed_deck_ids_by_commander server max_sleep high_draw max_pages p)) =
       [1..<1 + length (fetched (snd (discover_top_viewed_deck_ids_by_commander server max_sleep high_draw max_pages p)))]
   \<and> (\<forall>lo hi. Delay lo hi \<in> set (snd (discover_top_viewed_deck_ids_by_commander server max_sleep high_draw max_pages p))
        \<longrightarrow> lo = of_int p / 2 \<and> hi = of_int p \<and> 0 \<le> lo \<and> lo \<le> hi)"
proof (intro conjI allI impI)
  show "snd (discover_top_viewed_deck_ids_by_commander server max_sleep high_draw max_pages p) =
     (let pages = fetched (snd (discover_top_viewed_deck_ids_by_commander server max_sleep high_draw max_pages p)) in
      if pages = [] then []
      else concat (map (\<lambda>n. [Fetch n, Delay (of_int p / 2) (of_int p)]) (butlast pages)) @
           [Fetch (last pages)])"
    unfolding discover_top_events by (rule trace_shape)
  show "fetched (snd (discover_top_viewed_deck_ids_by_commander server max_sleep high_draw max_pages p)) =
       [1..<1 + length (fetched (snd (discover_top_viewed_deck_ids_by_commander server max_sleep high_draw max_pages p)))]"
    unfolding discover_top_events by (rule fetched_consecutive)
next
  fix lo hi
  assume "Delay lo hi \<in> set (snd (discover_top_viewed_deck_ids_by_commander server max_sleep high_draw max_pages p))"
  then have d: "0 \<le> p \<and> lo = of_int p / 2 \<and> hi = of_int p"
    unfolding discover_top_events by (rule delay_events)
  then show "lo = of_int p / 2" "hi = of_int p" "0 \<le> lo" "lo \<le> hi" by simp_all
qed

theorem politeness_between_fetches_witness:
  "snd (discover_top_viewed_deck_ids_by_commander two_pages_of_results one_day low_draws 5 4) =
     [Fetch 1, Delay 2 4, Fetch 2, Delay 2 4, Fetch 3]
   \<and> snd (discover_top_viewed_deck_ids_by_commander two_pages_of_results one_day low_draws 2 4) =
     [Fetch 1, Delay 2 4, Fetch 2]
   \<and> Delay 2 4 \<in> set (snd (discover_top_viewed_deck_ids_by_commander two_pages_of_results one_day low_draws 5 4))
   \<and> (2::rat) = of_int 4 / 2 \<and> (4::rat) = of_int 4 \<and> (0::rat) \<le> 2 \<and> (2::rat) \<le> 4"
proof -
  have t: "snd (discover_top_viewed_deck_ids_by_commander two_pages_of_results one_day low_draws 5 4) =
     [Fetch 1, Delay 2 4, Fetch 2, Delay 2 4, Fetch 3]" by code_simp
  have t2: "snd (discover_top_viewed_deck_ids_by_commander two_pages_of_results one_day low_draws 2 4) =
     [Fetch 1, Delay 2 4, Fetch 2]" by code_simp
  have m: "Delay 2 4 \<in> set (snd (discover_top_viewed_deck_ids_by_commander two_pages_of_results one_day low_draws 5 4))"
    unfolding t by simp
  from politeness_between_fetches [where server = two_pages_of_results and max_pages = 5 and p = 4
      and max_sleep = one_day and high_draw = low_draws] m
  have "(2::rat) = of_int 4 / 2 \<and> (4::rat) = of_int 4 \<and> (0::rat) \<le> 2 \<and> (2::rat) \<le> 4"
    by blast
  with t t2 m show ?thesis by blast
qed

lemma permuted_pages:
  assumes "bij_betw \<pi> {1..m} {1..m}"
  shows "(\<Union>n\<in>{1..m}. set (discover_deck_ids_by_commander
            (\<lambda>n. if 1 \<le> n \<and> n \<le> m then server (\<pi> n) else server n) n)) =
         (\<Union>n\<in>{1..m}. set (discover_deck_ids_by_commander server n))"
proof -
  have "(\<Union>n\<in>{1..m}. set (discover_deck_ids_by_commander
            (\<lambda>n. if 1 \<le> n \<and> n \<le> m then server (\<pi> n) else server n) n)) =
        (\<Union>n\<in>{1..m}. set (discover_deck_ids_by_commander server (\<pi> n)))"
    by (simp add: discover_deck_ids_by_commander_def)
  also have "\<dots> = (\<Union>n\<in>\<pi> ` {1..m}. set (discover_deck_ids_by_commander server n))"
    by simp
  also have "\<pi> ` {1..m} = {1..m}" using assms by (simp add: bij_betw_def)
  finally show ?thesis .
qed

text \<open>
  C6: the result of a search has no duplicates, and its length is the number of distinct
  identifiers on the pages requested, whatever a page repeats. When \<open>m\<close> pages hold
  results (\<open>m \<le> max_pages\<close>; the page after them is empty, or \<open>m = max_pages\<close>) and the
  politeness sleeps work (\<open>politeness_seconds\<close> is a duration that \<open>time.sleep\<close> accepts:
  not negative and not beyond the platform's limit), serving those pages in another order \<open>\<pi>\<close> gives a
  result with the same elements and the same length: the number of distinct identifiers
  of the \<open>m\<close> pages.
\<close>

theorem discovery_dedup:
  "distinct (fst (discover_top_viewed_deck_ids_by_commander server max_sleep high_draw max_pages p))
   \<and> length (fst (discover_top_viewed_deck_ids_by_commander server max_sleep high_draw max_pages p)) =
       card (\<Union>n\<in>set (fetched (snd (discover_top_viewed_deck_ids_by_commander server max_sleep high_draw max_pages p))).
               set (discover_deck_ids_by_commander server n))
   \<and> (0 \<le> p \<and> p \<le> max_sleep \<and> int m \<le> max_pages
        \<and> (\<forall>n. 1 \<le> n \<and> n \<le> m \<longrightarrow> discover_deck_ids_by_commander server n \<noteq> [])
        \<and> (int m = max_pages \<or> discover_deck_ids_by_commander server (Suc m) = [])
        \<and> bij_betw \<pi> {1..m} {1..m}
      \<longrightarrow> set (fst (discover_top_viewed_deck_ids_by_commander
                    (\<lambda>n. if 1 \<le> n \<and> n \<le> m then server (\<pi> n) else server n) max_sleep high_draw max_pages p)) =
          set (fst (discover_top_viewed_deck_ids_by_commander server max_sleep high_draw max_pages p))
        \<and> length (fst (discover_top_viewed_deck_ids_by_commander
                    (\<lambda>n. if 1 \<le> n \<and> n \<le> m then server (\<pi> n) else server n) max_sleep high_draw max_pages p)) =
          length (fst (discover_top_viewed_deck_ids_by_commander server max_sleep high_draw max_pages p))
        \<and> length (fst (discover_top_viewed_deck_ids_by_commander server max_sleep high_draw max_pages p)) =
          card (\<Union>n\<in>{1..m}. set (discover_deck_ids_by_commander server n)))"
proof (intro conjI impI)
  show dist: "distinct (fst (discover_top_viewed_deck_ids_by_commander server max_sleep high_draw max_pages p))"
    for server
    by (simp add: discover_top_ids py_list_set_def)
  have len: "length (fst (discover_top_viewed_deck_ids_by_commander server max_sleep high_draw max_pages p)) =
      card (set (fst (discover_top_viewed_deck_ids_by_commander server max_sleep high_draw max_pages p)))" for server
    using dist [of server] by (simp add: distinct_card)
  show "length (fst (discover_top_viewed_deck_ids_by_commander server max_sleep high_draw max_pages p)) =
       card (\<Union>n\<in>set (fetched (snd (discover_top_viewed_deck_ids_by_commander server max_sleep high_draw max_pages p))).
               set (discover_deck_ids_by_commander server n))"
    unfolding len by (simp add: discover_top_ids discover_top_events py_list_set_def set_all_ids)
  assume h: "0 \<le> p \<and> p \<le> max_sleep \<and> int m \<le> max_pages
        \<and> (\<forall>n. 1 \<le> n \<and> n \<le> m \<longrightarrow> discover_deck_ids_by_commander server n \<noteq> [])
        \<and> (int m = max_pages \<or> discover_deck_ids_by_commander server (Suc m) = [])
        \<and> bij_betw \<pi> {1..m} {1..m}"
  let ?server' = "\<lambda>n. if 1 \<le> n \<and> n \<le> m then server (\<pi> n) else server n"
  have s: "set (fst (discover_top_viewed_deck_ids_by_commander server max_sleep high_draw max_pages p)) =
      (\<Union>n\<in>{1..m}. set (discover_deck_ids_by_commander server n))"
    unfolding discover_top_ids py_list_set_def set_remdups
    using h by (intro all_ids_of_pages) simp_all
  have in_range: "\<pi> n \<in> {1..m}" if "n \<in> {1..m}" for n
    using h that by (auto simp: bij_betw_def)
  have ne': "\<forall>n. 1 \<le> n \<and> n \<le> m \<longrightarrow> discover_deck_ids_by_commander ?server' n \<noteq> []"
  proof (intro allI impI)
    fix n assume n: "1 \<le> n \<and> n \<le> m"
    then have "\<pi> n \<in> {1..m}" using in_range by simp
    with h have "discover_deck_ids_by_commander server (\<pi> n) \<noteq> []" by simp
    with n show "discover_deck_ids_by_commander ?server' n \<noteq> []"
      by (simp add: discover_deck_ids_by_commander_def)
  qed
  have end': "int m = max_pages \<or> discover_deck_ids_by_commander ?server' (Suc m) = []"
    using h by (auto simp: discover_deck_ids_by_commander_def)
  have "set (fst (discover_top_viewed_deck_ids_by_commander ?server' max_sleep high_draw max_pages p)) =
      (\<Union>n\<in>{1..m}. set (discover_deck_ids_by_commander ?server' n))"
    unfolding discover_top_ids py_list_set_def set_remdups
    using h ne' end' by (intro all_ids_of_pages) simp_all
  also have "\<dots> = (\<Union>n\<in>{1..m}. set (discover_deck_ids_by_commander server n))"
    using h by (intro permuted_pages) simp
  finally show same: "set (fst (discover_top_viewed_deck_ids_by_commander ?server' max_sleep high_draw max_pages p)) =
      set (fst (discover_top_viewed_deck_ids_by_commander server max_sleep high_draw max_pages p))"
    using s by simp
  show "length (fst (discover_top_viewed_deck_ids_by_commander ?server' max_sleep high_draw max_pages p)) =
      length (fst (discover_top_viewed_deck_ids_by_commander server max_sleep high_draw max_pages p))"
    unfolding len same ..
  show "length (fst (discover_top_viewed_deck_ids_by_commander server max_sleep high_draw max_pages p)) =
      card (\<Union>n\<in>{1..m}. set (discover_deck_ids_by_commander server n))"
    unfolding len s ..
qed

theorem discovery_dedup_witness:
  "(0::int) \<le> 1 \<and> 1 \<le> one_day \<and> int 2 \<le> 5
   \<and> discover_deck_ids_by_commander two_pages_of_results 1 = [''12'', ''11'']
   \<and> discover_deck_ids_by_commander two_pages_of_results 2 = [''12'', ''13'']
   \<and> discover_deck_ids_by_commander two_pages_of_results 3 = []
   \<and> bij_betw swap_first_two {1..2} {1..2}
   \<and> fst (discover_top_viewed_deck_ids_by_commander two_pages_of_results one_day low_draws 5 1) =
       [''11'', ''12'', ''13'']
   \<and> set (fst (discover_top_viewed_deck_ids_by_commander
              (\<lambda>n. if 1 \<le> n \<and> n \<le> 2 then two_pages_of_results (swap_first_two n)
                   else two_pages_of_results n) one_day low_draws 5 1)) =
       set (fst (discover_top_viewed_deck_ids_by_commander two_pages_of_results one_day low_draws 5 1))
   \<and> length (fst (discover_top_viewed_deck_ids_by_commander
              (\<lambda>n. if 1 \<le> n \<and> n \<le> 2 then two_pages_of_results (swap_first_two n)
                   else two_pages_of_results n) one_day low_draws 5 1)) =
       length (fst (discover_top_viewed_deck_ids_by_commander two_pages_of_results one_day low_draws 5 1))"
proof -
  have p1: "discover_deck_ids_by_commander two_pages_of_results 1 = [''12'', ''11'']"
    by code_simp
  have p2: "discover_deck_ids_by_commander two_pages_of_results 2 = [''12'', ''13'']"
    by code_simp
  have p3: "discover_deck_ids_by_commander two_pages_of_results 3 = []" by code_simp
  have r: "fst (discover_top_viewed_deck_ids_by_commander two_pages_of_results one_day low_draws 5 1) =
      [''11'', ''12'', ''13'']" by code_simp
  have ne: "\<forall>n. 1 \<le> n \<and> n \<le> 2 \<longrightarrow> discover_deck_ids_by_commander two_pages_of_results n \<noteq> []"
  proof (intro allI impI)
    fix n :: nat
    assume "1 \<le> n \<and> n \<le> 2"
    then have "n = 1 \<or> n = 2" by auto
    with p1 p2 show "discover_deck_ids_by_commander two_pages_of_results n \<noteq> []" by auto
  qed
  have i: "{1..2::nat} = {1, 2}" by auto
  have b: "bij_betw swap_first_two {1..2} {1..2}"
    unfolding i bij_betw_def inj_on_def by (auto simp: swap_first_two_def)
  have "Suc 2 = 3" by simp
  with p3 have e: "int 2 = 5 \<or> discover_deck_ids_by_commander two_pages_of_results (Suc 2) = []"
    by simp
  have h: "(0::int) \<le> 1 \<and> 1 \<le> one_day \<and> int 2 \<le> 5
        \<and> (\<forall>n. 1 \<le> n \<and> n \<le> 2 \<longrightarrow> discover_deck_ids_by_commander two_pages_of_results n \<noteq> [])
        \<and> (int 2 = 5 \<or> discover_deck_ids_by_commander two_pages_of_results (Suc 2) = [])
        \<and> bij_betw swap_first_two {1..2} {1..2}"
    using ne b e by (simp add: one_day_def)
  note d = discovery_dedup [where server = two_pages_of_results and max_pages = 5 and p = 1
      and m = 2 and \<pi> = swap_first_two and max_sleep = one_day and high_draw = low_draws]
  from d h
  have c: "set (fst (discover_top_viewed_deck_ids_by_commander
              (\<lambda>n. if 1 \<le> n \<and> n \<le> 2 then two_pages_of_results (swap_first_two n)
                   else two_pages_of_results n) one_day low_draws 5 1)) =
       set (fst (discover_top_viewed_deck_ids_by_commander two_pages_of_results one_day low_draws 5 1))
     \<and> length (fst (discover_top_viewed_deck_ids_by_commander
              (\<lambda>n. if 1 \<le> n \<and> n \<le> 2 then two_pages_of_results (swap_first_two n)
                   else two_pages_of_results n) one_day low_draws 5 1)) =
       length (fst (discover_top_viewed_deck_ids_by_commander two_pages_of_results one_day low_draws 5 1))"
    by blast
  have z: "(0::int) \<le> 1 \<and> 1 \<le> one_day \<and> int 2 \<le> 5" by (simp add: one_day_def)
  from z p1 p2 p3 b r c show ?thesis by blast
qed


section \<open>Properties of the store\<close>

lemma fresh_id_new: "fresh_id used \<notin> set used"
proof
  assume "fresh_id used \<in> set used"
  then have "fresh_id used \<le> Max (set (0 # used))" by (intro Max_ge) auto
  then show False by (simp add: fresh_id_def)
qed

lemma find_unique:
  "distinct (map k xs) \<Longrightarrow> find (\<lambda>r. k r = v) xs = Some e \<Longrightarrow> filter (\<lambda>r. k r = v) xs = [e]"
proof (induction xs)
  case Nil
  then show ?case by simp
next
  case (Cons x xs)
  show ?case
  proof (cases "k x = v")
    case True
    with Cons.prems have "x = e" by simp
    moreover from Cons.prems(1) have "k x \<notin> k ` set xs" by simp
    then have "\<forall>r\<in>set xs. k r \<noteq> v" using True by blast
    then have "filter (\<lambda>r. k r = v) xs = []" by (simp add: filter_empty_conv)
    ultimately show ?thesis using True by simp
  next
    case False
    with Cons show ?thesis by simp
  qed
qed

lemma find_none_filter: "find P xs = None \<Longrightarrow> filter P xs = []"
  by (simp add: find_None_iff filter_empty_conv)

lemma filter_single_find: "filter P xs = [e] \<Longrightarrow> find P xs = Some e"
proof (induction xs)
  case Nil
  then show ?case by simp
next
  case (Cons x xs)
  then show ?case by (cases "P x") auto
qed


lemma find_append_none: "find P xs = None \<Longrightarrow> find P (xs @ ys) = find P ys"
  by (induction xs) (auto split: if_splits)

lemma source_found:
  assumes "get_source_id src s = (sid, s0)"
  shows "\<exists>row. find (\<lambda>row. snd row = src) (sources s0) = Some row \<and> fst row = sid"
    and "decks s0 = decks s" and "deck_cards s0 = deck_cards s"
    and "deck_commanders s0 = deck_commanders s"
  using assms
  by (auto simp: get_source_id_def Let_def find_append_none split: option.splits)

lemma source_again:
  "find (\<lambda>row. snd row = src) (sources s) = Some row \<Longrightarrow> get_source_id src s = (fst row, s)"
  by (simp add: get_source_id_def)

lemma key_test:
  "(\<lambda>row. d_source_id row = sid \<and> d_source_deck_id row = key) = (\<lambda>row. deck_key row = (sid, key))"
  by (auto simp: deck_key_def)

lemma upsert_deck_result:
  assumes uniq: "unique_deck_keys s" and up: "upsert_deck src key d s = (i, s')"
  defines "sid \<equiv> fst (get_source_id src s)"
  shows "unique_deck_keys s'"
    and "\<exists>row. filter (\<lambda>r. deck_key r = (sid, key)) (decks s') = [row] \<and> d_id row = i \<and>
           d_title row = dd_title d \<and> d_author row = dd_author d \<and> d_url row = dd_url d \<and>
           d_extra row = dd_extra d"
    and "get_source_id src s' = (sid, s')"
    and "deck_cards s' = deck_cards s" and "deck_commanders s' = deck_commanders s"
    and "\<forall>e. filter (\<lambda>r. deck_key r = (sid, key)) (decks s) = [e] \<longrightarrow> i = d_id e"
proof -
  obtain s0 where g: "get_source_id src s = (sid, s0)"
    unfolding sid_def by (cases "get_source_id src s") simp
  obtain srow where sr: "find (\<lambda>row. snd row = src) (sources s0) = Some srow" "fst srow = sid"
    using source_found(1) [OF g] by blast
  note same = source_found(2-4) [OF g]
  let ?P = "\<lambda>r. deck_key r = (sid, key)"
  have "unique_deck_keys s'
    \<and> (\<exists>row. filter ?P (decks s') = [row] \<and> d_id row = i \<and>
           d_title row = dd_title d \<and> d_author row = dd_author d \<and> d_url row = dd_url d \<and>
           d_extra row = dd_extra d)
    \<and> get_source_id src s' = (sid, s')
    \<and> deck_cards s' = deck_cards s \<and> deck_commanders s' = deck_commanders s
    \<and> (\<forall>e. filter ?P (decks s) = [e] \<longrightarrow> i = d_id e)" (is ?goal)
  proof (cases "find ?P (decks s0)")
    case None
    let ?new = "\<lparr>d_id = fresh_id (map d_id (decks s0)), d_source_id = sid,
                  d_source_deck_id = key,
                  d_format = (case dd_format d of None \<Rightarrow> ''Commander'' | Some f \<Rightarrow> f),
                  d_title = dd_title d, d_author = dd_author d,
                  d_url = dd_url d, d_extra = dd_extra d\<rparr>"
    from up g None have i: "i = fresh_id (map d_id (decks s0))"
      and s': "s' = s0\<lparr>decks := decks s0 @ [?new]\<rparr>"
      by (auto simp add: upsert_deck_def key_test Let_def)
    have none: "filter ?P (decks s0) = []" using None by (rule find_none_filter)
    then have notin: "(sid, key) \<notin> set (map deck_key (decks s0))"
      by (auto simp: filter_empty_conv)
    have "unique_deck_keys s'"
      using uniq notin same by (simp add: unique_deck_keys_def s' deck_key_def)
    moreover have "filter ?P (decks s') = [?new]"
      using none by (simp add: s' deck_key_def)
    moreover have "get_source_id src s' = (sid, s')"
      using source_again [of src s' srow] sr by (simp add: s')
    ultimately show ?thesis using none same i by (simp add: s')
  next
    case (Some existing)
    let ?f = "\<lambda>row. if d_id row = d_id existing
                     then row\<lparr>d_title := dd_title d, d_author := dd_author d,
                              d_url := dd_url d, d_extra := dd_extra d\<rparr>
                     else row"
    from up g Some have i: "i = d_id existing"
      and s': "s' = s0\<lparr>decks := map ?f (decks s0)\<rparr>"
      by (auto simp add: upsert_deck_def key_test)
    have keep: "deck_key (?f r) = deck_key r" for r by (simp add: deck_key_def)
    have one: "filter ?P (decks s0) = [existing]"
      using uniq Some same by (intro find_unique) (simp_all add: unique_deck_keys_def)
    have ck: "deck_key \<circ> ?f = deck_key" using keep by (simp add: fun_eq_iff)
    have "unique_deck_keys s'"
      using uniq same by (simp add: unique_deck_keys_def s' ck)
    moreover have "?P \<circ> ?f = ?P" using keep by (simp add: fun_eq_iff)
    then have "filter ?P (map ?f (decks s0)) = map ?f (filter ?P (decks s0))"
      by (simp only: filter_map)
    then have "filter ?P (decks s') = [?f existing]" using one by (simp add: s')
    moreover have "get_source_id src s' = (sid, s')"
      using source_again [of src s' srow] sr by (simp add: s')
    ultimately show ?thesis using one same i by (simp add: s')
  qed
  then show "unique_deck_keys s'"
    and "\<exists>row. filter (\<lambda>r. deck_key r = (sid, key)) (decks s') = [row] \<and> d_id row = i \<and>
           d_title row = dd_title d \<and> d_author row = dd_author d \<and> d_url row = dd_url d \<and>
           d_extra row = dd_extra d"
    and "get_source_id src s' = (sid, s')"
    and "deck_cards s' = deck_cards s" and "deck_commanders s' = deck_commanders s"
    and "\<forall>e. filter (\<lambda>r. deck_key r = (sid, key)) (decks s) = [e] \<longrightarrow> i = d_id e"
    by blast+
qed

lemma insert_deck_cards_rows:
  "filter (\<lambda>r. cr_deck_id r = i) (deck_cards (insert_deck_cards i cards True t)) =
   map (card_row_of i) cards"
proof -
  have "filter (\<lambda>r. cr_deck_id r = i) (map (card_row_of i) cards) = map (card_row_of i) cards"
    by (induction cards) (simp_all add: card_row_of_def)
  moreover have "filter (\<lambda>r. cr_deck_id r = i) (filter (\<lambda>row. cr_deck_id row \<noteq> i) xs) = []" for xs
    by (induction xs) simp_all
  ultimately show ?thesis by (simp add: insert_deck_cards_def)
qed

lemma insert_deck_commanders_rows:
  "filter (\<lambda>r. mr_deck_id r = i) (deck_commanders (insert_deck_commanders i cs t)) =
   map (commander_row_of i) cs"
proof -
  have "filter (\<lambda>r. mr_deck_id r = i) (map (commander_row_of i) cs) = map (commander_row_of i) cs"
    by (induction cs) (simp_all add: commander_row_of_def)
  moreover have "filter (\<lambda>r. mr_deck_id r = i) (filter (\<lambda>row. mr_deck_id row \<noteq> i) xs) = []" for xs
    by (induction xs) simp_all
  ultimately show ?thesis by (simp add: insert_deck_commanders_def)
qed

lemma persist_deck_result:
  assumes uniq: "unique_deck_keys s" and pe: "persist_deck src d s = (i, s')"
  shows "unique_deck_keys s'
    \<and> (\<exists>row. filter (\<lambda>r. deck_key r = (fst (get_source_id src s), dd_source_deck_id d)) (decks s') = [row]
          \<and> d_id row = i \<and> d_title row = dd_title d \<and> d_author row = dd_author d
          \<and> d_url row = dd_url d \<and> d_extra row = dd_extra d)
    \<and> get_source_id src s' = (fst (get_source_id src s), s')
    \<and> filter (\<lambda>r. cr_deck_id r = i) (deck_cards s') = map (card_row_of i) (dd_cards d)
    \<and> (dd_commanders d \<noteq> [] \<longrightarrow>
         filter (\<lambda>r. mr_deck_id r = i) (deck_commanders s') = map (commander_row_of i) (dd_commanders d))
    \<and> (dd_commanders d = [] \<longrightarrow> deck_commanders s' = deck_commanders s)
    \<and> (\<forall>e. filter (\<lambda>r. deck_key r = (fst (get_source_id src s), dd_source_deck_id d)) (decks s) = [e]
          \<longrightarrow> i = d_id e)"
proof -
  obtain j s1 where up: "upsert_deck src (dd_source_deck_id d) d s = (j, s1)"
    by (cases "upsert_deck src (dd_source_deck_id d) d s")
  let ?s2 = "insert_deck_cards j (dd_cards d) True s1"
  let ?s3 = "if dd_commanders d \<noteq> [] then insert_deck_commanders j (dd_commanders d) ?s2 else ?s2"
  from pe up have i: "i = j" and s': "s' = ?s3"
    by (auto simp: persist_deck_def Let_def)
  note u = upsert_deck_result [OF uniq up]
  have dk: "decks s' = decks s1" and so: "sources s' = sources s1"
    by (simp_all add: s' insert_deck_cards_def insert_deck_commanders_def Let_def)
  obtain srow where "find (\<lambda>row. snd row = src) (sources s1) = Some srow"
    and "fst srow = fst (get_source_id src s)"
    using source_found(1) [OF u(3)] by blast
  then have g: "get_source_id src s' = (fst (get_source_id src s), s')"
    using source_again [of src s' srow] so by simp
  have cards: "filter (\<lambda>r. cr_deck_id r = i) (deck_cards s') = map (card_row_of i) (dd_cards d)"
    using insert_deck_cards_rows [of j "dd_cards d" s1]
    by (simp add: s' i insert_deck_commanders_def Let_def)
  have cm1: "dd_commanders d \<noteq> [] \<longrightarrow>
      filter (\<lambda>r. mr_deck_id r = i) (deck_commanders s') = map (commander_row_of i) (dd_commanders d)"
    using insert_deck_commanders_rows [of j "dd_commanders d" ?s2] by (simp add: s' i)
  have cm2: "dd_commanders d = [] \<longrightarrow> deck_commanders s' = deck_commanders s"
    using u(5) by (simp add: s' insert_deck_cards_def Let_def)
  have "unique_deck_keys s'" using u(1) dk by (simp add: unique_deck_keys_def)
  with u(2,6) dk g cards cm1 cm2 i show ?thesis by simp
qed

text \<open>
  C8, as stated, fails for the commander rows: the jobs call \<open>insert_deck_commanders\<close>
  only when the deck's commander list is not empty. Deck \<open>abc123\<close> is stored with the
  commander Atraxa and then again with no commander: the row of Atraxa stays.
\<close>

theorem upsert_replaces_counterexample:
  "dd_source_deck_id deck_v2 = dd_source_deck_id deck_v1
   \<and> dd_commanders deck_v2 = []
   \<and> deck_commanders (snd (persist_deck ''moxfield'' deck_v2
        (snd (persist_deck ''moxfield'' deck_v1 empty_db)))) =
       [\<lparr>mr_deck_id = 1, mr_oracle_id = None, mr_name = ''Atraxa''\<rparr>]"
  by code_simp

text \<open>
  C8, amended: in a store whose deck keys \<open>(source_id, source_deck_id)\<close> are unique,
  storing a deck twice under one key leaves exactly one deck row of that key, with the
  id the first store returned and the title, author, url and extra data of the second
  deck; its card rows are exactly the rows of the second card list; its commander rows
  are exactly the rows of the second commander list when that list is not empty, and
  the commander table is left as it was when it is empty. \<open>insert_deck_commanders\<close>
  itself always replaces the commander rows of a deck, also by none.
\<close>

theorem upsert_replaces:
  assumes "unique_deck_keys s" and "dd_source_deck_id d2 = dd_source_deck_id d1"
    and "persist_deck src d1 s = (id1, s1)" and "persist_deck src d2 s1 = (id2, s2)"
  shows "id2 = id1
    \<and> (\<exists>row. filter (\<lambda>r. deck_key r = (fst (get_source_id src s), dd_source_deck_id d1)) (decks s2) = [row]
          \<and> d_id row = id1 \<and> d_title row = dd_title d2 \<and> d_author row = dd_author d2
          \<and> d_url row = dd_url d2 \<and> d_extra row = dd_extra d2)
    \<and> filter (\<lambda>r. cr_deck_id r = id1) (deck_cards s2) = map (card_row_of id1) (dd_cards d2)
    \<and> (dd_commanders d2 \<noteq> [] \<longrightarrow>
         filter (\<lambda>r. mr_deck_id r = id1) (deck_commanders s2) =
         map (commander_row_of id1) (dd_commanders d2))
    \<and> (dd_commanders d2 = [] \<longrightarrow> deck_commanders s2 = deck_commanders s1)
    \<and> filter (\<lambda>r. mr_deck_id r = i) (deck_commanders (insert_deck_commanders i cs t)) =
        map (commander_row_of i) cs"
proof -
  note p1 = persist_deck_result [OF assms(1) assms(3)]
  from p1 have u1: "unique_deck_keys s1"
    and g1: "get_source_id src s1 = (fst (get_source_id src s), s1)" by blast+
  from p1 obtain row1 where r1:
    "filter (\<lambda>r. deck_key r = (fst (get_source_id src s), dd_source_deck_id d1)) (decks s1) = [row1]"
    "d_id row1 = id1" by blast
  note p2 = persist_deck_result [OF u1 assms(4)]
  have k: "fst (get_source_id src s1) = fst (get_source_id src s)" using g1 by simp
  from p2 r1 have "id2 = id1" unfolding k assms(2) by blast
  with p2 show ?thesis unfolding k assms(2) using insert_deck_commanders_rows by blast
qed

theorem upsert_replaces_witness:
  "unique_deck_keys empty_db
   \<and> dd_source_deck_id deck_v3 = dd_source_deck_id deck_v1
   \<and> fst (persist_deck ''moxfield'' deck_v1 empty_db) = 1
   \<and> fst (persist_deck ''moxfield'' deck_v3 (snd (persist_deck ''moxfield'' deck_v1 empty_db))) = 1
   \<and> length (decks (snd (persist_deck ''moxfield'' deck_v3
        (snd (persist_deck ''moxfield'' deck_v1 empty_db))))) = 1
   \<and> filter (\<lambda>r. cr_deck_id r = 1) (deck_cards (snd (persist_deck ''moxfield'' deck_v3
        (snd (persist_deck ''moxfield'' deck_v1 empty_db))))) =
       [\<lparr>cr_deck_id = 1, cr_name = ''Karn'', cr_qty = 1, cr_oracle_id = None, cr_zone = ''command''\<rparr>]
   \<and> filter (\<lambda>r. mr_deck_id r = 1) (deck_commanders (snd (persist_deck ''moxfield'' deck_v3
        (snd (persist_deck ''moxfield'' deck_v1 empty_db))))) =
       [\<lparr>mr_deck_id = 1, mr_oracle_id = None, mr_name = ''Karn''\<rparr>]"
proof -
  let ?p1 = "persist_deck ''moxfield'' deck_v1 empty_db"
  let ?p2 = "persist_deck ''moxfield'' deck_v3 (snd ?p1)"
  have u: "unique_deck_keys empty_db" by (simp add: unique_deck_keys_def empty_db_def)
  have k: "dd_source_deck_id deck_v3 = dd_source_deck_id deck_v1"
    by (simp add: deck_v1_def deck_v3_def)
  have i1: "fst ?p1 = 1" by code_simp
  have n: "length (decks (snd ?p2)) = 1" by code_simp
  have c3: "map (card_row_of 1) (dd_cards deck_v3) =
      [\<lparr>cr_deck_id = 1, cr_name = ''Karn'', cr_qty = 1, cr_oracle_id = None, cr_zone = ''command''\<rparr>]"
    by (simp add: deck_v3_def card_row_of_def)
  have m3: "map (commander_row_of 1) (dd_commanders deck_v3) =
      [\<lparr>mr_deck_id = 1, mr_oracle_id = None, mr_name = ''Karn''\<rparr>]"
    by (simp add: deck_v3_def commander_row_of_def)
  have ne: "dd_commanders deck_v3 \<noteq> []" by (simp add: deck_v3_def)
  have e1: "?p1 = (fst ?p1, snd ?p1)" and e2: "?p2 = (fst ?p2, snd ?p2)" by simp_all
  note t = upsert_replaces [OF u k e1 e2]
  from t have "fst ?p2 = fst ?p1" by blast
  moreover from t ne have "filter (\<lambda>r. cr_deck_id r = fst ?p1) (deck_cards (snd ?p2)) =
      map (card_row_of (fst ?p1)) (dd_cards deck_v3)"
    and "filter (\<lambda>r. mr_deck_id r = fst ?p1) (deck_commanders (snd ?p2)) =
      map (commander_row_of (fst ?p1)) (dd_commanders deck_v3)" by blast+
  ultimately show ?thesis using u k n unfolding i1 c3 m3 by simp
qed


section \<open>Properties of the jobs\<close>

lemma upsert_deck_logs: "ingestion_logs (snd (upsert_deck src key d s)) = ingestion_logs s"
  by (auto simp: upsert_deck_def get_source_id_def Let_def split: prod.splits option.splits)

lemma persist_deck_logs: "ingestion_logs (snd (persist_deck src d s)) = ingestion_logs s"
  using upsert_deck_logs [of src "dd_source_deck_id d" d s]
  by (auto simp: persist_deck_def insert_deck_cards_def insert_deck_commanders_def Let_def
      split: prod.splits)

lemma export_loop_counts:
  "export_loop fetch_deck True ids (s, td, tc, er) = (s', td', tc', er') \<Longrightarrow>
   td' = td + length (filter (\<lambda>i. \<exists>d. fetch_deck i = Fetched d) ids)
   \<and> er' = er + length (filter (\<lambda>i. \<nexists>d. fetch_deck i = Fetched d) ids)
   \<and> ingestion_logs s' = ingestion_logs s"
proof (induction ids arbitrary: s td tc er)
  case Nil
  then show ?case by simp
next
  case (Cons i ids)
  show ?case
  proof (cases "fetch_deck i")
    case Fetch_raises
    with Cons.prems have "export_loop fetch_deck True ids (s, td, tc, er + 1) = (s', td', tc', er')"
      by simp
    from Cons.IH [OF this] Fetch_raises show ?thesis by simp
  next
    case Fetch_none
    with Cons.prems have "export_loop fetch_deck True ids (s, td, tc, er + 1) = (s', td', tc', er')"
      by simp
    from Cons.IH [OF this] Fetch_none show ?thesis by simp
  next
    case (Fetched d)
    with Cons.prems have "export_loop fetch_deck True ids
        (snd (persist_deck ''moxfield'' d s), td + 1, tc + length (dd_cards d), er) = (s', td', tc', er')"
      by simp
    from Cons.IH [OF this] Fetched show ?thesis by (simp add: persist_deck_logs)
  qed
qed

lemma one_failure_counts:
  assumes "k < length ids" and "\<nexists>d. f (ids ! k) = Fetched d"
    and "\<forall>i<length ids. i \<noteq> k \<longrightarrow> (\<exists>d. f (ids ! i) = Fetched d)"
  shows "length (filter (\<lambda>i. \<exists>d. f i = Fetched d) ids) = length ids - 1"
    and "length (filter (\<lambda>i. \<nexists>d. f i = Fetched d) ids) = 1"
proof -
  let ?P = "\<lambda>i. \<exists>d. f i = Fetched d"
  have split: "ids = take k ids @ ids ! k # drop (Suc k) ids"
    using assms(1) by (rule id_take_nth_drop)
  have a: "\<forall>x\<in>set (take k ids). ?P x"
  proof
    fix x assume "x \<in> set (take k ids)"
    then obtain j where "j < length (take k ids)" "take k ids ! j = x"
      by (auto simp: in_set_conv_nth)
    then have "j < k" "j < length ids" "ids ! j = x" using assms(1) by auto
    with assms(3) show "?P x" by (metis less_irrefl)
  qed
  have b: "\<forall>x\<in>set (drop (Suc k) ids). ?P x"
  proof
    fix x assume "x \<in> set (drop (Suc k) ids)"
    then obtain j where j: "j < length (drop (Suc k) ids)" "drop (Suc k) ids ! j = x"
      by (auto simp: in_set_conv_nth)
    then have "Suc k + j < length ids" "ids ! (Suc k + j) = x" by auto
    with assms(3) show "?P x" by (metis add_Suc less_add_Suc1 less_irrefl)
  qed
  have fa: "filter ?P (take k ids) = take k ids" using a by (simp add: filter_id_conv)
  have fb: "filter ?P (drop (Suc k) ids) = drop (Suc k) ids" using b by (simp add: filter_id_conv)
  have na: "filter (\<lambda>i. \<not> ?P i) (take k ids) = []" using a by (simp add: filter_empty_conv)
  have nb: "filter (\<lambda>i. \<not> ?P i) (drop (Suc k) ids) = []" using b by (simp add: filter_empty_conv)
  have "length (filter ?P ids) =
      length (filter ?P (take k ids @ ids ! k # drop (Suc k) ids))"
    using split by simp
  also have "\<dots> = length (take k ids) + length (drop (Suc k) ids)"
    using assms(2) fa fb by simp
  also have "\<dots> = length ids - 1" using assms(1) by simp
  finally show "length (filter ?P ids) = length ids - 1" .
  have "length (filter (\<lambda>i. \<not> ?P i) ids) =
      length (filter (\<lambda>i. \<not> ?P i) (take k ids @ ids ! k # drop (Suc k) ids))"
    using split by simp
  also have "\<dots> = 1" using assms(2) na nb by simp
  finally show "length (filter (\<lambda>i. \<nexists>d. f i = Fetched d) ids) = 1" .
qed

lemma export_status:
  assumes "run_moxfield_export enabled discover fetch_deck sleep_ok deck_ids max_decks s =
           (Export_done td tc er, s')"
  shows "ingestion_logs s' \<noteq> [] \<and>
         jr_status (last (ingestion_logs s')) = (if er = 0 then ''success'' else ''partial'') \<and>
         jr_decks_processed (last (ingestion_logs s')) = td \<and>
         jr_errors_count (last (ingestion_logs s')) = er"
  using assms
  by (auto simp: run_moxfield_export_def run_moxfield_discovery_def log_ingestion_def Let_def
      split: if_splits option.splits list.splits sum.splits prod.splits job_result.splits)

text \<open>
  C1: the export job runs over \<open>N\<close> deck ids (the adapter is enabled, \<open>N \<le> max_decks\<close>,
  the sleep between requests succeeds); the fetch of the deck at position \<open>k\<close> raises and
  every other deck is fetched. Then the job returns \<open>decks_processed = N - 1\<close> and
  \<open>errors = 1\<close>, and appends one record to the ingestion log: operation \<open>export\<close>,
  \<open>decks_processed = N - 1\<close>, \<open>errors_count = 1\<close>, status \<open>partial\<close>. In every run that
  gets to its loop, the status logged is \<open>success\<close> exactly when no error was counted.
  (The dict the job returns has \<open>status\<close> \<open>success\<close> in both cases; the status of the
  claim is that of the JobRun record.)
\<close>

theorem partial_failure_isolation:
  assumes "k < length ids" and "int (length ids) \<le> max_decks"
    and "fetch_deck (ids ! k) = Fetch_raises"
    and "\<forall>i<length ids. i \<noteq> k \<longrightarrow> (\<exists>d. fetch_deck (ids ! i) = Fetched d)"
  shows "(\<exists>cards s'.
           run_moxfield_export True discover fetch_deck True (Some ids) max_decks s =
             (Export_done (length ids - 1) cards 1, s')
           \<and> ingestion_logs s' = ingestion_logs s @
               [\<lparr>jr_source_name = ''moxfield'', jr_operation = ''export'', jr_status = ''partial'',
                 jr_decks_processed = length ids - 1, jr_cards_processed = cards,
                 jr_errors_count = 1, jr_http_429_count = 0, jr_message = None\<rparr>])
         \<and> (run_moxfield_export enabled discover' fetch_deck' sleep_ok deck_ids max_decks' s0 =
               (Export_done n_decks n_cards n_errors, s0') \<longrightarrow>
             jr_status (last (ingestion_logs s0')) =
               (if n_errors = 0 then ''success'' else ''partial''))"
proof -
  obtain s1 td tc er where loop: "export_loop fetch_deck True ids (s, 0, 0, 0) = (s1, td, tc, er)"
    by (cases "export_loop fetch_deck True ids (s, 0, 0, 0)") auto
  have nf: "\<nexists>d. fetch_deck (ids ! k) = Fetched d" using assms(3) by simp
  from export_loop_counts [OF loop] one_failure_counts [OF assms(1) nf assms(4)]
  have c: "td = length ids - 1" "er = 1" "ingestion_logs s1 = ingestion_logs s" by simp_all
  obtain x xs where ids: "ids = x # xs" using assms(1) by (cases ids) auto
  have sl: "py_slice_to max_decks ids = ids" using assms(2) by (simp add: py_slice_to_def)
  have "run_moxfield_export True discover fetch_deck True (Some ids) max_decks s =
      (Export_done td tc er,
       log_ingestion ''moxfield'' ''export'' (if er = 0 then ''success'' else ''partial'')
         td tc er 0 None s1)"
    using loop sl unfolding run_moxfield_export_def by (simp add: ids Let_def)
  then show ?thesis using c export_status by (simp add: log_ingestion_def)
qed

theorem partial_failure_isolation_witness:
  "(1::nat) < length [''a'', ''bad'', ''c''] \<and> int (length [''a'', ''bad'', ''c'']) \<le> 50
   \<and> fails_on_bad ([''a'', ''bad'', ''c''] ! 1) = Fetch_raises
   \<and> fst (run_moxfield_export True (Inr []) fails_on_bad True (Some [''a'', ''bad'', ''c'']) 50 empty_db) =
       Export_done 2 4 1
   \<and> ingestion_logs (snd (run_moxfield_export True (Inr []) fails_on_bad True
        (Some [''a'', ''bad'', ''c'']) 50 empty_db)) =
       [\<lparr>jr_source_name = ''moxfield'', jr_operation = ''export'', jr_status = ''partial'',
         jr_decks_processed = 2, jr_cards_processed = 4,
         jr_errors_count = 1, jr_http_429_count = 0, jr_message = None\<rparr>]"
proof -
  let ?ids = "[''a'', ''bad'', ''c'']"
  have a1: "(1::nat) < length ?ids" by simp
  have a2: "int (length ?ids) \<le> 50" by simp
  have a3: "fails_on_bad (?ids ! 1) = Fetch_raises" by (simp add: fails_on_bad_def)
  have a4: "\<forall>i<length ?ids. i \<noteq> 1 \<longrightarrow> (\<exists>d. fails_on_bad (?ids ! i) = Fetched d)"
  proof (intro allI impI)
    fix i assume "i < length ?ids" "i \<noteq> 1"
    then have "i = 0 \<or> i = 2" by auto
    then show "\<exists>d. fails_on_bad (?ids ! i) = Fetched d" by (auto simp: fails_on_bad_def)
  qed
  have r: "fst (run_moxfield_export True (Inr []) fails_on_bad True (Some ?ids) 50 empty_db) =
      Export_done 2 4 1" by code_simp
  from partial_failure_isolation [OF a1 a2 a3 a4, of "Inr []" empty_db]
  obtain cards s' where t:
    "run_moxfield_export True (Inr []) fails_on_bad True (Some ?ids) 50 empty_db =
       (Export_done (length ?ids - 1) cards 1, s')"
    "ingestion_logs s' = ingestion_logs empty_db @
       [\<lparr>jr_source_name = ''moxfield'', jr_operation = ''export'', jr_status = ''partial'',
         jr_decks_processed = length ?ids - 1, jr_cards_processed = cards,
         jr_errors_count = 1, jr_http_429_count = 0, jr_message = None\<rparr>]"
    by blast
  from t(1) r have "cards = 4" by simp
  with t have "ingestion_logs (snd (run_moxfield_export True (Inr []) fails_on_bad True
        (Some ?ids) 50 empty_db)) =
       [\<lparr>jr_source_name = ''moxfield'', jr_operation = ''export'', jr_status = ''partial'',
         jr_decks_processed = 2, jr_cards_processed = 4,
         jr_errors_count = 1, jr_http_429_count = 0, jr_message = None\<rparr>]"
    by (simp add: empty_db_def)
  with a1 a2 a3 r show ?thesis by blast
qed

lemma pending_loop_counts:
  assumes "pending_loop bulk rows (s, c, tn, tf, pd, rs) = (s', c', tn', tf', pd', rs')"
    and "distinct pd" and "map fst rs = rev pd" and "tn + tf = length pd"
  shows "distinct pd' \<and> map fst rs' = rev pd' \<and> tn' + tf' = length pd' \<and>
         set pd' = set pd \<union> fst ` set rows"
  using assms
proof (induction rows arbitrary: s c tn tf pd rs)
  case Nil
  then show ?case by simp
next
  case (Cons row rows)
  show ?case
  proof (cases "fst row \<in> set pd")
    case True
    with Cons.prems(1) have "pending_loop bulk rows (s, c, tn, tf, pd, rs) = (s', c', tn', tf', pd', rs')"
      by simp
    from Cons.IH [OF this Cons.prems(2-4)] True show ?thesis by auto
  next
    case False
    obtain oracle_id c1 where r: "resolve_card_name bulk (fst (snd row)) c = (oracle_id, c1)"
      by (cases "resolve_card_name bulk (fst (snd row)) c")
    show ?thesis
    proof (cases "truthy oracle_id")
      case None
      with Cons.prems(1) False r have "pending_loop bulk rows
          (log_unmapped_card (fst (snd row)) s, c1, tn, tf + 1, fst row # pd,
           rs @ [(fst row, fst (snd row))]) = (s', c', tn', tf', pd', rs')"
        by (simp add: Let_def)
      from Cons.IH [OF this] False Cons.prems(2-4) show ?thesis by auto
    next
      case (Some oid)
      with Cons.prems(1) False r have "pending_loop bulk rows
          (update_card_oracle_id (fst row) (fst (snd row)) oid s, c1, tn + 1, tf, fst row # pd,
           rs @ [(fst row, fst (snd row))]) = (s', c', tn', tf', pd', rs')"
        by (simp add: Let_def)
      from Cons.IH [OF this] False Cons.prems(2-4) show ?thesis by auto
    qed
  qed
qed

lemma pending_loop_first:
  assumes "pending_loop bulk rows (s, c, tn, tf, pd, rs) = (s', c', tn', tf', pd', rs')"
  shows "\<forall>(d, n)\<in>set rs'. (d, n) \<in> set rs \<or>
           (\<exists>pre q z post. rows = pre @ (d, n, q, z) # post \<and> d \<notin> fst ` set pre \<and> d \<notin> set pd)"
  using assms
proof (induction rows arbitrary: s c tn tf pd rs)
  case Nil
  then show ?case by auto
next
  case (Cons row rows)
  obtain d0 n0 q0 z0 where row: "row = (d0, n0, q0, z0)" by (cases row) auto
  have later: "\<exists>pre q z post. row # rows = pre @ (d, n, q, z) # post \<and> d \<notin> fst ` set pre"
    if "rows = pre @ (d, n, q, z) # post" "d \<notin> fst ` set pre" "d \<noteq> d0" for d n pre q z post
  proof -
    have "row # rows = (row # pre) @ (d, n, q, z) # post" using that(1) by simp
    moreover have "d \<notin> fst ` set (row # pre)" using that(2,3) row by simp
    ultimately show ?thesis by blast
  qed
  show ?case
  proof (cases "d0 \<in> set pd")
    case True
    with Cons.prems row have "pending_loop bulk rows (s, c, tn, tf, pd, rs) = (s', c', tn', tf', pd', rs')"
      by simp
    from Cons.IH [OF this] have ih: "\<forall>(d, n)\<in>set rs'. (d, n) \<in> set rs \<or>
           (\<exists>pre q z post. rows = pre @ (d, n, q, z) # post \<and> d \<notin> fst ` set pre \<and> d \<notin> set pd)" .
    have "\<exists>pre q z post. row # rows = pre @ (d, n, q, z) # post \<and> d \<notin> fst ` set pre \<and> d \<notin> set pd"
      if "(d, n) \<in> set rs'" "(d, n) \<notin> set rs" for d n
    proof -
      from ih that obtain pre q z post where p: "rows = pre @ (d, n, q, z) # post"
        "d \<notin> fst ` set pre" "d \<notin> set pd" by blast
      with True have "d \<noteq> d0" by auto
      from later [OF p(1,2) this] p(3) show ?thesis by blast
    qed
    then show ?thesis by blast
  next
    case False
    obtain oracle_id c1 where r: "resolve_card_name bulk n0 c = (oracle_id, c1)"
      by (cases "resolve_card_name bulk n0 c")
    have "\<exists>s1 tn1 tf1. pending_loop bulk rows (s1, c1, tn1, tf1, d0 # pd, rs @ [(d0, n0)]) =
        (s', c', tn', tf', pd', rs')"
      using Cons.prems False r row by (cases "truthy oracle_id") (auto simp: Let_def)
    then obtain s1 tn1 tf1 where "pending_loop bulk rows (s1, c1, tn1, tf1, d0 # pd, rs @ [(d0, n0)]) =
        (s', c', tn', tf', pd', rs')" by blast
    from Cons.IH [OF this] have ih: "\<forall>(d, n)\<in>set rs'. (d, n) \<in> set (rs @ [(d0, n0)]) \<or>
           (\<exists>pre q z post. rows = pre @ (d, n, q, z) # post \<and> d \<notin> fst ` set pre \<and>
              d \<notin> set (d0 # pd))" .
    have "\<exists>pre q z post. row # rows = pre @ (d, n, q, z) # post \<and> d \<notin> fst ` set pre \<and> d \<notin> set pd"
      if a: "(d, n) \<in> set rs'" "(d, n) \<notin> set rs" for d n
      proof (cases "(d, n) = (d0, n0)")
        case True
        then have "row # rows = [] @ (d, n, q0, z0) # rows" using row by simp
        moreover have "d \<notin> fst ` set []" by simp
        moreover have "d \<notin> set pd" using True False by simp
        ultimately show ?thesis by blast
      next
        case neq: False
        with ih a obtain pre q z post where p: "rows = pre @ (d, n, q, z) # post"
          "d \<notin> fst ` set pre" "d \<notin> set (d0 # pd)" by auto
        then have "d \<noteq> d0" "d \<notin> set pd" by auto
        with later [OF p(1,2)] show ?thesis by blast
      qed
    then show ?thesis by blast
  qed
qed

text \<open>
  C10: in a sweep that gets to its loop, the cards resolved are one per deck of the
  batch, each the first pending row of its deck (every later row of a deck is skipped
  without a resolution); so \<open>normalized + failed\<close> is the number of resolutions, which is
  the number of distinct deck ids in the batch, and so is \<open>unique_decks_processed\<close>.
\<close>

theorem one_card_per_deck:
  assumes "normalize_all_pending needs_refresh download_ok bulk limit s c =
           (Inr stats, s', c', resolved)"
  shows "normalized stats + failed stats =
           card (fst ` set (get_decks_needing_normalization limit s))
       \<and> normalized stats + failed stats = length resolved
       \<and> unique_decks_processed stats =
           card (fst ` set (get_decks_needing_normalization limit s))
       \<and> distinct (map fst resolved)
       \<and> fst ` set resolved = fst ` set (get_decks_needing_normalization limit s)
       \<and> (\<forall>(d, n)\<in>set resolved. \<exists>pre q z post.
             get_decks_needing_normalization limit s = pre @ (d, n, q, z) # post \<and>
             d \<notin> fst ` set pre)"
proof -
  let ?pending = "get_decks_needing_normalization limit s"
  from assms obtain c1 where b: "build_name_resolver bulk c = (True, c1)"
    by (auto simp: normalize_all_pending_def split: if_splits prod.splits bool.splits)
  obtain s2 c2 tn tf pd rs where
    loop: "pending_loop bulk ?pending (s, c1, 0, 0, [], []) = (s2, c2, tn, tf, pd, rs)"
    by (cases "pending_loop bulk ?pending (s, c1, 0, 0, [], [])") auto
  from assms b loop have st: "stats = \<lparr>normalized = tn, failed = tf, unique_decks_processed = length pd\<rparr>"
    and rs: "resolved = rs"
    by (auto simp: normalize_all_pending_def Let_def split: if_splits)
  from pending_loop_counts [OF loop] have cnt: "distinct pd" "map fst rs = rev pd"
    "tn + tf = length pd" "set pd = fst ` set ?pending" by simp_all
  from pending_loop_first [OF loop] have first: "\<forall>(d, n)\<in>set rs. \<exists>pre q z post.
      ?pending = pre @ (d, n, q, z) # post \<and> d \<notin> fst ` set pre" by auto
  have len: "length rs = length pd" using cnt(2) by (metis length_map length_rev)
  have crd: "card (fst ` set ?pending) = length pd" using cnt(1,4) by (metis distinct_card)
  have dist: "distinct (map fst rs)" using cnt(1,2) by simp
  have img: "fst ` set rs = fst ` set ?pending"
    using cnt(2,4) by (metis set_map set_rev)
  from st rs cnt(3) len crd dist img first show ?thesis by simp
qed

theorem one_card_per_deck_witness:
  "fst (normalize_all_pending False True sol_ring_only 5000 pending_store []) =
     Inr \<lparr>normalized = 1, failed = 1, unique_decks_processed = 2\<rparr>
   \<and> snd (snd (snd (normalize_all_pending False True sol_ring_only 5000 pending_store []))) =
       [(1, ''Sol Ring''), (2, ''Mystery Card'')]
   \<and> length (get_decks_needing_normalization 5000 pending_store) = 3
   \<and> card (fst ` set (get_decks_needing_normalization 5000 pending_store)) = 2"
proof -
  let ?r = "normalize_all_pending False True sol_ring_only 5000 pending_store []"
  have f: "fst ?r = Inr \<lparr>normalized = 1, failed = 1, unique_decks_processed = 2\<rparr>" by code_simp
  have g: "snd (snd (snd ?r)) = [(1, ''Sol Ring''), (2, ''Mystery Card'')]" by code_simp
  have l: "length (get_decks_needing_normalization 5000 pending_store) = 3" by code_simp
  have "?r = (fst ?r, fst (snd ?r), fst (snd (snd ?r)), snd (snd (snd ?r)))" by simp
  then have e: "?r = (Inr \<lparr>normalized = 1, failed = 1, unique_decks_processed = 2\<rparr>,
      fst (snd ?r), fst (snd (snd ?r)), snd (snd (snd ?r)))" using f by simp
  from one_card_per_deck [OF e]
  have "card (fst ` set (get_decks_needing_normalization 5000 pending_store)) = 2" by simp
  with f g l show ?thesis by blast
qed


end
